theory Spec2Isabelle
  imports Complex_Main
begin

section \<open>Colored noise: \<open>powerlaw_psd_gaussian\<close> of \<open>colorednoise.py\<close>\<close>

text \<open>
  The module has one function, \<open>powerlaw_psd_gaussian(exponent, size, fmin=0)\<close>. It is
  modelled line by line. Conventions of the model:
  \<^item> Python floats and NumPy \<open>float64\<close> entries are real numbers (\<^typ>\<open>real\<close>), so
    the rounding of IEEE arithmetic is not represented: \<open>fftfreq\<close>, for one, returns
    the exact \<open>k / n\<close> where NumPy stores the rounded product of \<open>k\<close> and the rounded
    \<open>1 / n\<close>. The range of \<open>float64\<close> is represented where the source can leave it,
    in the power of line 80: \<open>float64\<close> below stores a real number as NumPy does
    when it is too large or too small, and \<open>s_scale_float64\<close> is the scale vector
    as stored. The final \<open>y / std\<close> on arrays, which can divide by zero without
    raising, has an explicit non-finite result.
  \<^item> The argument \<open>size\<close> is dynamically typed; it is a value of \<open>pyobj\<close>.
  \<^item> Every exception the function can raise is a value \<open>Inl e\<close> of the result.
  \<^item> The process-wide random stream read by \<open>numpy.random.normal\<close> is an explicit
    state, a stream of standard-normal draws, passed in and returned.
  \<^item> An n-dimensional array is its shape and its rows along the last axis, in
    row-major order of the leading axes.
  \<^item> Python 3 is assumed: \<open>/\<close> is true division, \<open>//\<close> is floor division.
\<close>

subsection \<open>Values, errors and arrays\<close>

datatype pyobj = PyInt int | PyFloat real | PyStr string | PyNone | PySeq "pyobj list"

datatype error = TypeError | IndexError | ValueError | ZeroDivisionError

text \<open>
  The result of a \<open>float64\<close> array division: NumPy does not raise on a zero divisor,
  it yields an infinity or a NaN (and a warning).
\<close>

datatype npfloat = Fin real | PosInf | NegInf | NaN

record 'a ndarray =
  shape :: "nat list"
  rows :: "'a list list"

type_synonym rng = "nat \<Rightarrow> real"

subsection \<open>The library primitives the function calls\<close>

text \<open>
  \<open>list(size)\<close> inside \<open>try\<close>/\<open>except TypeError\<close> (lines 57 to 60): a sequence
  gives its elements, a string its characters, and a value that is not iterable raises
  \<open>TypeError\<close>, which the handler turns into the one-element list.
\<close>

fun size_list :: "pyobj \<Rightarrow> pyobj list" where
  "size_list (PySeq xs) = xs"
| "size_list (PyStr s) = map (\<lambda>c. PyStr [c]) s"
| "size_list v = [v]"

text \<open>\<open>size[-1]\<close> (line 63): \<open>IndexError\<close> on the empty list.\<close>

definition last_item :: "pyobj list \<Rightarrow> error + pyobj" where
  "last_item xs = (if xs = [] then Inl IndexError else Inr (last xs))"

text \<open>
  \<open>numpy.fft.fftfreq(n)\<close> with the default spacing \<open>d = 1.0\<close>. NumPy's body is
  \<^verbatim>\<open>
    if not isinstance(n, integer_types): raise ValueError("n should be an integer")
    val = 1.0 / (n * d)
    results = empty(n, int)
    N = (n-1)//2 + 1
    results[:N] = arange(0, N, dtype=int)
    results[N:] = arange(-(n//2), 0, dtype=int)
    return results * val
  \<close>
  so \<open>n = 0\<close> raises \<open>ZeroDivisionError\<close> and a negative \<open>n\<close> raises \<open>ValueError\<close>
  (negative dimension of \<open>empty\<close>).
\<close>

definition fftfreq :: "pyobj \<Rightarrow> error + real list" where
  "fftfreq v =
     (case v of
        PyInt n \<Rightarrow>
          if n = 0 then Inl ZeroDivisionError
          else if n < 0 then Inl ValueError
          else
            let val = 1 / real_of_int n;
                N = (n - 1) div 2 + 1
            in Inr (map (\<lambda>k. real_of_int k * val) ([0..N - 1] @ [- (n div 2)..- 1]))
      | _ \<Rightarrow> Inl ValueError)"

text \<open>
  The integer behind a Python value that is an integer. \<open>int_of\<close> is read only where
  the value is known to be one.
\<close>

fun is_int :: "pyobj \<Rightarrow> bool" where
  "is_int (PyInt n) = True"
| "is_int _ = False"

fun int_of :: "pyobj \<Rightarrow> int" where
  "int_of (PyInt n) = n"
| "int_of _ = 0"

text \<open>
  The dimensions \<open>numpy.random.normal(size=...)\<close> accepts. NumPy converts every entry
  to an integer first, and raises \<open>TypeError\<close> when one is not an integer; then it
  rejects a negative dimension with \<open>ValueError\<close>. A zero dimension is accepted and
  gives an empty array. The limits of memory and of the index type on a dimension are
  not modelled.
\<close>

definition dims_of :: "pyobj list \<Rightarrow> error + nat list" where
  "dims_of xs =
     (if \<exists>x \<in> set xs. \<not> is_int x then Inl TypeError
      else if \<exists>x \<in> set xs. int_of x < 0 then Inl ValueError
      else Inr (map (\<lambda>x. nat (int_of x)) xs))"

text \<open>
  \<open>normal(size=size)\<close>: as many draws as the array has entries are taken from the
  stream, in row-major order, and the stream advances past them. The function only
  calls it with a non-empty \<open>size\<close>.
\<close>

definition normal :: "pyobj list \<Rightarrow> rng \<Rightarrow> error + (real ndarray \<times> rng)" where
  "normal sz g =
     (case dims_of sz of
        Inl e \<Rightarrow> Inl e
      | Inr ds \<Rightarrow>
          let m = last ds;
              b = prod_list (butlast ds)
          in Inr (\<lparr>shape = ds,
                    rows = map (\<lambda>r. map (\<lambda>c. g (r * m + c)) [0..<m]) [0..<b]\<rparr>,
                  (\<lambda>i. g (i + b * m))))"

text \<open>
  \<open>numpy.fft.irfft(a, n=n, axis=-1)\<close>: the inverse of the one-sided real transform,
  along the last axis. With \<open>a\<close> the \<open>n//2 + 1\<close> one-sided coefficients of a row, entry
  \<open>t\<close> of the result is
  \<open>(Re a\<^sub>0 + 2 * (\<Sum> 1 \<le> k < (n+1)//2. Re (a\<^sub>k * e\<^bsup>2\<pi>ikt/n\<^esup>)) + [n even] Re a\<^bsub>n/2\<^esub> * cos (\<pi>t)) / n\<close>:
  the imaginary parts of the zero-frequency coefficient and, for even \<open>n\<close>, of the
  last coefficient are ignored. A row shorter than \<open>n//2 + 1\<close> is padded with zeros.
\<close>

definition coef :: "complex list \<Rightarrow> nat \<Rightarrow> complex" where
  "coef a k = (if k < length a then a ! k else 0)"

definition irfft_row :: "nat \<Rightarrow> complex list \<Rightarrow> real list" where
  "irfft_row n a =
     map (\<lambda>t. (Re (coef a 0)
               + (\<Sum>k = 1..<(n + 1) div 2.
                    2 * Re (coef a k * cis (2 * pi * real k * real t / real n)))
               + (if even n then Re (coef a (n div 2)) * cos (pi * real t) else 0))
              / real n)
         [0..<n]"

definition irfft :: "complex ndarray \<Rightarrow> nat \<Rightarrow> real ndarray" where
  "irfft a n = \<lparr>shape = butlast (shape a) @ [n], rows = map (irfft_row n) (rows a)\<rparr>"

text \<open>Elementwise \<open>float64\<close> division by a scalar that is not negative.\<close>

definition np_div :: "real \<Rightarrow> real \<Rightarrow> npfloat" where
  "np_div x d =
     (if d \<noteq> 0 then Fin (x / d)
      else if 0 < x then PosInf
      else if x < 0 then NegInf
      else NaN)"

subsection \<open>The stages of \<open>powerlaw_psd_gaussian\<close>\<close>

text \<open>
  Lines 69 and 70: \<open>s_scale = abs(f[:samples//2 + 1])\<close>, then
  \<open>s_scale[0] = 1/samples\<close>.
\<close>

definition s_scale_init :: "int \<Rightarrow> real list \<Rightarrow> real list" where
  "s_scale_init n f = (map abs (take (nat (n div 2 + 1)) f))[0 := 1 / real_of_int n]"

text \<open>
  Lines 76 to 79, the low-frequency cutoff: \<open>if fmin:\<close> is the test \<open>fmin \<noteq> 0\<close>,
  \<open>ix = sum(s_scale < fmin)\<close> counts the entries strictly below \<open>fmin\<close>, and
  \<open>s_scale[:ix] = s_scale[ix]\<close> overwrites the first \<open>ix\<close> entries.
\<close>

definition cutoff_ix :: "real \<Rightarrow> real list \<Rightarrow> nat" where
  "cutoff_ix fmin s = length (filter (\<lambda>x. x < fmin) s)"

definition low_cutoff :: "real \<Rightarrow> real list \<Rightarrow> real list" where
  "low_cutoff fmin s =
     (if fmin \<noteq> 0 then
        let ix = cutoff_ix fmin s
        in if ix < length s then replicate ix (s ! ix) @ drop ix s else s
      else s)"

text \<open>
  Line 80: \<open>s_scale = s_scale**(-exponent/2.)\<close>. Every base is positive here, where the
  floating-point power is the real power \<open>powr\<close>.
\<close>

definition apply_exponent :: "real \<Rightarrow> real list \<Rightarrow> real list" where
  "apply_exponent exponent s = map (\<lambda>x. x powr (- exponent / 2)) s"

text \<open>
  The scale vector that multiplies the spectrum, for an accepted \<open>samples = n\<close>:
  lines 66 to 80 together.
\<close>

definition s_scale_of :: "real \<Rightarrow> int \<Rightarrow> real \<Rightarrow> real list \<Rightarrow> real list" where
  "s_scale_of exponent n fmin f = apply_exponent exponent (low_cutoff fmin (s_scale_init n f))"

text \<open>
  The range of \<open>float64\<close>. The largest finite \<open>float64\<close> is \<open>2\<^sup>1\<^sup>0\<^sup>2\<^sup>4 - 2\<^sup>9\<^sup>7\<^sup>1\<close>; a real
  result of at least \<open>2\<^sup>1\<^sup>0\<^sup>2\<^sup>4 - 2\<^sup>9\<^sup>7\<^sup>0\<close>, halfway to \<open>2\<^sup>1\<^sup>0\<^sup>2\<^sup>4\<close>, is stored as \<open>inf\<close>.
  The smallest positive \<open>float64\<close> is \<open>2\<^sup>-\<^sup>1\<^sup>0\<^sup>7\<^sup>4\<close>; a result of magnitude at most
  half of it is stored as \<open>0.0\<close>. Between the two the stored number is the real
  number: the rounding to 53 bits is not represented.
\<close>

definition float64 :: "real \<Rightarrow> npfloat" where
  "float64 v =
     (if 2 ^ 1024 - 2 ^ 970 \<le> v then PosInf
      else if v \<le> - (2 ^ 1024 - 2 ^ 970) then NegInf
      else if \<bar>v\<bar> \<le> 1 / 2 ^ 1075 then Fin 0
      else Fin v)"

text \<open>
  The scale vector as line 80 stores it: every power \<open>x ** (-exponent/2.)\<close> of a
  positive \<open>float64\<close> is a \<open>float64\<close>, an infinity when the power overflows and
  \<open>0.0\<close> when it underflows. NumPy does not raise there.
\<close>

definition s_scale_float64 :: "real \<Rightarrow> int \<Rightarrow> real \<Rightarrow> real list \<Rightarrow> npfloat list" where
  "s_scale_float64 exponent n fmin f = map float64 (s_scale_of exponent n fmin f)"

text \<open>
  Lines 93 and 96: \<open>si[...,-1] = 0\<close> and \<open>si[...,0] = 0\<close> write one entry of every
  row. The last axis is never empty.
\<close>

definition zero_last :: "real ndarray \<Rightarrow> real ndarray" where
  "zero_last a = a\<lparr>rows := map (\<lambda>r. r[length r - 1 := 0]) (rows a)\<rparr>"

definition zero_first :: "real ndarray \<Rightarrow> real ndarray" where
  "zero_first a = a\<lparr>rows := map (\<lambda>r. r[0 := 0]) (rows a)\<rparr>"

definition imag_part :: "int \<Rightarrow> real ndarray \<Rightarrow> real ndarray" where
  "imag_part n si = zero_first (if n mod 2 = 0 then zero_last si else si)"

text \<open>Line 100: \<open>s = (sr + 1J * si)\<close>, two arrays of one shape.\<close>

definition spectrum :: "real ndarray \<Rightarrow> real ndarray \<Rightarrow> complex ndarray" where
  "spectrum sr si =
     \<lparr>shape = shape sr, rows = map2 (\<lambda>r i. map2 Complex r i) (rows sr) (rows si)\<rparr>"

text \<open>
  Line 101: \<open>s * s_scale\<close>. Line 85 has given \<open>s_scale\<close> leading axes of length one,
  so the product broadcasts it over every row of \<open>s\<close>.
\<close>

definition scale_rows :: "complex ndarray \<Rightarrow> real list \<Rightarrow> complex ndarray" where
  "scale_rows s sc =
     \<lparr>shape = shape s, rows = map (\<lambda>r. map2 (\<lambda>z c. z * complex_of_real c) r sc) (rows s)\<rparr>"

text \<open>
  Lines 105 to 109. \<open>weights\<close> is the array \<open>s_scale\<close> itself, written in place after
  \<open>y\<close> has been computed: first \<open>weights[...,0] = 0\<close>, then
  \<open>weights[...,-1] *= (1 + (samples % 2)) / 2.\<close>, and only then \<open>weights**2\<close>.
\<close>

definition nyquist_factor :: "int \<Rightarrow> real" where
  "nyquist_factor n = (1 + real_of_int (n mod 2)) / 2"

definition weights_of :: "int \<Rightarrow> real list \<Rightarrow> real list" where
  "weights_of n sc =
     (let w0 = sc[0 := 0];
          w1 = w0[length w0 - 1 := w0 ! (length w0 - 1) * nyquist_factor n]
      in map (\<lambda>x. x\<^sup>2) w1)"

definition theoretical_std :: "int \<Rightarrow> real list \<Rightarrow> real" where
  "theoretical_std n sc = 2 * sqrt (sum_list (weights_of n sc)) / real_of_int n"

text \<open>Line 110: \<open>y / std\<close>.\<close>

definition divide_by :: "real ndarray \<Rightarrow> real \<Rightarrow> npfloat ndarray" where
  "divide_by y d = \<lparr>shape = shape y, rows = map (map (\<lambda>x. np_div x d)) (rows y)\<rparr>"

text \<open>
  Lines 88 to 100: the two arrays of draws, \<open>sr\<close> first, the two writes into
  \<open>si\<close>, and the complex spectrum.
\<close>

definition draw_spectrum :: "int \<Rightarrow> pyobj list \<Rightarrow> rng \<Rightarrow> error + (complex ndarray \<times> rng)" where
  "draw_spectrum n size1 g =
     (case normal size1 g of
        Inl e \<Rightarrow> Inl e
      | Inr (sr, g1) \<Rightarrow>
          (case normal size1 g1 of
             Inl e \<Rightarrow> Inl e
           | Inr (si, g2) \<Rightarrow> Inr (spectrum sr (imag_part n si), g2)))"

subsection \<open>The function\<close>

definition powerlaw_psd_gaussian ::
  "real \<Rightarrow> pyobj \<Rightarrow> real \<Rightarrow> rng \<Rightarrow> error + (npfloat ndarray \<times> rng)" where
  "powerlaw_psd_gaussian exponent sz fmin g =
     (let size0 = size_list sz in
      case last_item size0 of
        Inl e \<Rightarrow> Inl e
      | Inr samples \<Rightarrow>
          (case fftfreq samples of
             Inl e \<Rightarrow> Inl e
           | Inr f \<Rightarrow>
               let n = int_of samples;
                   size1 = butlast size0 @ [PyInt (int (length (s_scale_init n f)))];
                   s_scale = s_scale_of exponent n fmin f
               in (case draw_spectrum n size1 g of
                     Inl e \<Rightarrow> Inl e
                   | Inr (s, g2) \<Rightarrow>
                       let y = irfft (scale_rows s s_scale) (nat n);
                           std = theoretical_std n s_scale
                       in Inr (divide_by y std, g2))))"

subsection \<open>The variance normalizer as the specification words it\<close>

text \<open>
  The specification's section 4.5 describes the weights in another order: square the
  scale vector, zero the first weight, then multiply the last weight by
  \<open>(1 + samples % 2) / 2\<close>. These two definitions follow that wording, for comparison
  with \<open>weights_of\<close> and \<open>theoretical_std\<close>, which follow the source.
\<close>

definition spec_weights :: "int \<Rightarrow> real list \<Rightarrow> real list" where
  "spec_weights n sc =
     (let w0 = map (\<lambda>x. x\<^sup>2) sc;
          w1 = w0[0 := 0]
      in w1[length w1 - 1 := w1 ! (length w1 - 1) * nyquist_factor n])"

definition spec_std :: "int \<Rightarrow> real list \<Rightarrow> real" where
  "spec_std n sc = 2 * sqrt (sum_list (spec_weights n sc)) / real_of_int n"

subsection \<open>The draws in an output sample\<close>



subsection \<open>The sample variance of a returned time series\<close>






section \<open>Properties\<close>

subsection \<open>The frequency grid and the scale vector\<close>

lemma fftfreq_pos:
  assumes "0 < n"
  shows "fftfreq (PyInt n) =
    Inr (map (\<lambda>k. real_of_int k * (1 / real_of_int n)) ([0..(n - 1) div 2] @ [- (n div 2)..- 1]))"
  using assms by (simp add: fftfreq_def Let_def)

lemma length_fftfreq:
  assumes "0 < n" "fftfreq (PyInt n) = Inr f"
  shows "length f = nat n"
proof -
  have "length f = nat ((n - 1) div 2 + 1) + nat (n div 2)"
    using assms by (auto simp: fftfreq_pos)
  also have "\<dots> = nat n" using assms(1) by linarith
  finally show ?thesis .
qed

text \<open>The one-sided part of the grid: \<open>|f[k]| = k / n\<close> for \<open>k \<le> n // 2\<close>.\<close>

lemma fftfreq_nth_abs:
  assumes "0 < n" "fftfreq (PyInt n) = Inr f" "int k \<le> n div 2"
  shows "\<bar>f ! k\<bar> = real k / real_of_int n"
proof (cases "int k \<le> (n - 1) div 2")
  case True
  then have "f ! k = real_of_int (int k) * (1 / real_of_int n)"
    using assms by (auto simp: fftfreq_pos nth_append)
  then show ?thesis using assms(1) by simp
next
  case False
  then have k: "int k = n div 2" "(n - 1) div 2 + 1 = n div 2" "n div 2 > 0"
    using assms by presburger+
  have "f ! k = real_of_int (- (n div 2)) * (1 / real_of_int n)"
    using assms k False
    by (auto simp: fftfreq_pos nth_append nat_add_distrib)
  then show ?thesis using assms(1) k by simp
qed

lemma length_s_scale_init:
  assumes "0 < n" "fftfreq (PyInt n) = Inr f"
  shows "length (s_scale_init n f) = nat (n div 2 + 1)"
proof -
  have "nat (n div 2 + 1) \<le> nat n" using assms(1) by linarith
  then show ?thesis
    using length_fftfreq[OF assms] by (simp add: s_scale_init_def)
qed

lemma s_scale_init_nth:
  assumes "0 < n" "fftfreq (PyInt n) = Inr f" "int k \<le> n div 2"
  shows "s_scale_init n f ! k = (if k = 0 then 1 / real_of_int n else real k / real_of_int n)"
proof -
  have len: "k < length (map abs (take (nat (n div 2 + 1)) f))"
    using length_s_scale_init[OF assms(1,2)] assms(3) by (simp add: s_scale_init_def)
  show ?thesis
  proof (cases "k = 0")
    case True
    then show ?thesis using len by (simp add: s_scale_init_def)
  next
    case False
    have "k < nat (n div 2 + 1)" using assms(3) by linarith
    then have "s_scale_init n f ! k = \<bar>f ! k\<bar>"
      using False len by (simp add: s_scale_init_def)
    then show ?thesis using False fftfreq_nth_abs[OF assms] by simp
  qed
qed

lemma s_scale_init_lower:
  assumes "0 < n" "fftfreq (PyInt n) = Inr f" "x \<in> set (s_scale_init n f)"
  shows "1 / real_of_int n \<le> x"
proof -
  obtain k where k: "k < length (s_scale_init n f)" "x = s_scale_init n f ! k"
    using assms(3) by (auto simp: in_set_conv_nth)
  then have "int k \<le> n div 2"
    using length_s_scale_init[OF assms(1,2)] by linarith
  then have "x = (if k = 0 then 1 / real_of_int n else real k / real_of_int n)"
    using s_scale_init_nth[OF assms(1,2)] k by simp
  then show ?thesis using assms(1) by (auto simp: divide_simps)
qed

lemma s_scale_init_pos:
  assumes "0 < n" "fftfreq (PyInt n) = Inr f" "x \<in> set (s_scale_init n f)"
  shows "0 < x"
proof -
  have "0 < 1 / real_of_int n" using assms(1) by simp
  then show ?thesis using s_scale_init_lower[OF assms] by linarith
qed

text \<open>
  The scale vector for \<open>fmin = 0\<close> in exact arithmetic: \<open>n // 2 + 1\<close> entries, the
  first one \<open>(1/n)\<^bsup>-e/2\<^esup>\<close>, entry \<open>k\<close> equal to \<open>(k/n)\<^bsup>-e/2\<^esup>\<close> for
  \<open>1 \<le> k \<le> n // 2\<close>, all positive.
\<close>

lemma s_scale_of_fmin_zero:
  assumes "1 \<le> n"
  shows "\<exists>f. fftfreq (PyInt n) = Inr f
      \<and> length (s_scale_of e n 0 f) = nat (n div 2 + 1)
      \<and> s_scale_of e n 0 f ! 0 = (1 / real_of_int n) powr (- e / 2)
      \<and> (\<forall>k. 1 \<le> k \<and> int k \<le> n div 2 \<longrightarrow>
            s_scale_of e n 0 f ! k = (real k / real_of_int n) powr (- e / 2))
      \<and> (\<forall>x \<in> set (s_scale_of e n 0 f). 0 < x)"
proof -
  have n: "0 < n" using assms by simp
  obtain f where f: "fftfreq (PyInt n) = Inr f" using fftfreq_pos[OF n] by blast
  let ?s = "s_scale_init n f"
  have sc: "s_scale_of e n 0 f = map (\<lambda>x. x powr (- e / 2)) ?s"
    by (simp add: s_scale_of_def low_cutoff_def apply_exponent_def)
  have len: "length ?s = nat (n div 2 + 1)" by (rule length_s_scale_init[OF n f])
  have nth: "s_scale_of e n 0 f ! k = (?s ! k) powr (- e / 2)" if "int k \<le> n div 2" for k
  proof -
    have "k < length ?s" using that len by linarith
    then show ?thesis by (simp add: sc)
  qed
  have z: "s_scale_of e n 0 f ! 0 = (1 / real_of_int n) powr (- e / 2)"
    using nth[of 0] s_scale_init_nth[OF n f, of 0] n by simp
  have k: "\<forall>k. 1 \<le> k \<and> int k \<le> n div 2 \<longrightarrow>
            s_scale_of e n 0 f ! k = (real k / real_of_int n) powr (- e / 2)"
    using nth s_scale_init_nth[OF n f] by auto
  have pos: "\<forall>x \<in> set (s_scale_of e n 0 f). 0 < x"
  proof
    fix x assume "x \<in> set (s_scale_of e n 0 f)"
    then obtain y where y: "y \<in> set ?s" "x = y powr (- e / 2)" by (auto simp: sc)
    then have "0 < y" using s_scale_init_pos[OF n f] by blast
    then show "0 < x" using y by simp
  qed
  show ?thesis using f len z k pos by (auto simp: sc)
qed

subsection \<open>The low-frequency cutoff\<close>

lemma cutoff_ix_le: "cutoff_ix fmin s \<le> length s"
  by (simp add: cutoff_ix_def)

lemma length_low_cutoff: "length (low_cutoff fmin s) = length s"
  by (simp add: low_cutoff_def Let_def)

lemma cutoff_ix_zero:
  assumes "\<forall>x \<in> set s. fmin \<le> x"
  shows "cutoff_ix fmin s = 0"
proof -
  have "filter (\<lambda>x. x < fmin) s = []"
    using assms by (auto simp: filter_empty_conv)
  then show ?thesis by (simp add: cutoff_ix_def)
qed

lemma low_cutoff_ix_zero:
  assumes "cutoff_ix fmin s = 0"
  shows "low_cutoff fmin s = s"
  using assms by (simp add: low_cutoff_def Let_def)

lemma s_scale_init_8:
  "s_scale_init 8 [0, 1/8, 1/4, 3/8, - (1/2), - (3/8), - (1/4), - (1/8)]
     = [1/8, 1/8, 1/4, 3/8, 1/2]"
  by (simp add: s_scale_init_def)

text \<open>
  Claim C5. For every \<open>fmin > 0\<close>, with \<open>ix\<close> the number of entries of the pre-exponent
  vector \<open>s\<close> that are strictly below \<open>fmin\<close>: if \<open>ix\<close> is less than the number of
  bins, the cutoff writes \<open>s[ix]\<close> into every entry with index below \<open>ix\<close> and leaves
  the others as they are, so that the scale vector after the exponent has one value on
  the indices \<open>0..ix\<close>; if \<open>ix\<close> is the number of bins, the vector is left as it is.
  \<open>ix\<close> is never more than the number of bins, so these are all the cases.
\<close>

theorem low_cutoff_flat:
  assumes "0 < fmin"
  shows "(cutoff_ix fmin (s_scale_init n f) < length (s_scale_init n f) \<longrightarrow>
            low_cutoff fmin (s_scale_init n f) =
              replicate (cutoff_ix fmin (s_scale_init n f))
                        (s_scale_init n f ! cutoff_ix fmin (s_scale_init n f))
              @ drop (cutoff_ix fmin (s_scale_init n f)) (s_scale_init n f)
          \<and> (\<forall>j < cutoff_ix fmin (s_scale_init n f).
                low_cutoff fmin (s_scale_init n f) ! j
                  = s_scale_init n f ! cutoff_ix fmin (s_scale_init n f))
          \<and> (\<forall>j \<le> cutoff_ix fmin (s_scale_init n f).
                s_scale_of e n fmin f ! j
                  = (s_scale_init n f ! cutoff_ix fmin (s_scale_init n f)) powr (- e / 2)))
       \<and> (cutoff_ix fmin (s_scale_init n f) = length (s_scale_init n f) \<longrightarrow>
            low_cutoff fmin (s_scale_init n f) = s_scale_init n f
          \<and> s_scale_of e n fmin f = apply_exponent e (s_scale_init n f))
       \<and> cutoff_ix fmin (s_scale_init n f) \<le> length (s_scale_init n f)"
proof -
  let ?s = "s_scale_init n f"
  let ?ix = "cutoff_ix fmin ?s"
  have ne: "fmin \<noteq> 0" using assms by simp
  have full: "low_cutoff fmin ?s = ?s" if "?ix = length ?s"
    using that ne by (simp add: low_cutoff_def Let_def)
  have part: "low_cutoff fmin ?s = replicate ?ix (?s ! ?ix) @ drop ?ix ?s" if "?ix < length ?s"
    using that ne by (simp add: low_cutoff_def Let_def)
  have below: "low_cutoff fmin ?s ! j = ?s ! ?ix" if "?ix < length ?s" "j \<le> ?ix" for j
  proof (cases "j < ?ix")
    case True
    then show ?thesis using part[OF that(1)] by (simp add: nth_append)
  next
    case False
    then have "j = ?ix" using that(2) by simp
    then show ?thesis using part[OF that(1)] that(1) by (simp add: nth_append)
  qed
  have flat: "s_scale_of e n fmin f ! j = (?s ! ?ix) powr (- e / 2)"
    if "?ix < length ?s" "j \<le> ?ix" for j
  proof -
    have "j < length (low_cutoff fmin ?s)" using that length_low_cutoff[of fmin ?s] by simp
    then show ?thesis using below[OF that] by (simp add: s_scale_of_def apply_exponent_def)
  qed
  have full': "s_scale_of e n fmin f = apply_exponent e ?s" if "?ix = length ?s"
    using full[OF that] by (simp add: s_scale_of_def)
  show ?thesis using full full' part below flat cutoff_ix_le[of fmin ?s] by auto
qed

text \<open>
  At \<open>samples = 8\<close> the pre-exponent vector is \<open>[1/8, 1/8, 1/4, 3/8, 1/2]\<close>. With
  \<open>fmin = 3/10\<close> three entries are below the cutoff and are overwritten by \<open>3/8\<close>;
  with \<open>fmin = 1\<close> all five are, and nothing is written.
\<close>

theorem low_cutoff_flat_witness:
  "(0::real) < 3/10
   \<and> cutoff_ix (3/10) (s_scale_init 8 [0, 1/8, 1/4, 3/8, - (1/2), - (3/8), - (1/4), - (1/8)]) = 3
   \<and> low_cutoff (3/10) (s_scale_init 8 [0, 1/8, 1/4, 3/8, - (1/2), - (3/8), - (1/4), - (1/8)])
       = [3/8, 3/8, 3/8, 3/8, 1/2]
   \<and> (0::real) < 1
   \<and> cutoff_ix 1 (s_scale_init 8 [0, 1/8, 1/4, 3/8, - (1/2), - (3/8), - (1/4), - (1/8)]) = 5
   \<and> low_cutoff 1 (s_scale_init 8 [0, 1/8, 1/4, 3/8, - (1/2), - (3/8), - (1/4), - (1/8)])
       = [1/8, 1/8, 1/4, 3/8, 1/2]"
proof -
  let ?f = "[0, 1/8, 1/4, 3/8, - (1/2), - (3/8), - (1/4), - (1/8)] :: real list"
  have h1: "(0::real) < 3/10" and h2: "(0::real) < 1" by simp_all
  have ix1: "cutoff_ix (3/10) (s_scale_init 8 ?f) = 3"
    by (simp add: s_scale_init_8 cutoff_ix_def)
  have ix2: "cutoff_ix 1 (s_scale_init 8 ?f) = 5"
    by (simp add: s_scale_init_8 cutoff_ix_def)
  have a: "low_cutoff (3/10) (s_scale_init 8 ?f) = [3/8, 3/8, 3/8, 3/8, 1/2]"
    using low_cutoff_flat[OF h1, of 8 ?f 1] unfolding ix1
    by (simp add: s_scale_init_8 numeral_3_eq_3)
  have b: "low_cutoff 1 (s_scale_init 8 ?f) = [1/8, 1/8, 1/4, 3/8, 1/2]"
    using low_cutoff_flat[OF h2, of 8 ?f 1] unfolding ix2
    by (simp add: s_scale_init_8)
  show ?thesis using h1 h2 ix1 ix2 a b by simp
qed

text \<open>
  Claim C10. For every \<open>samples = n \<ge> 1\<close> and every \<open>fmin\<close> with
  \<open>0 < fmin \<le> 1/n\<close>, no entry of the pre-exponent vector is strictly below \<open>fmin\<close>
  (the count \<open>ix\<close> is 0), the cutoff branch leaves the vector as it is, and a call with
  the same arguments and the same random stream returns what the call with
  \<open>fmin = 0\<close> returns.
\<close>

theorem small_fmin_no_cutoff:
  assumes "1 \<le> n" "0 < fmin" "fmin \<le> 1 / real_of_int n"
  shows "(\<exists>f. fftfreq (PyInt n) = Inr f
            \<and> cutoff_ix fmin (s_scale_init n f) = 0
            \<and> low_cutoff fmin (s_scale_init n f) = s_scale_init n f
            \<and> s_scale_of e n fmin f = s_scale_of e n 0 f)
       \<and> (\<forall>sz g. last_item (size_list sz) = Inr (PyInt n) \<longrightarrow>
             powerlaw_psd_gaussian e sz fmin g = powerlaw_psd_gaussian e sz 0 g)"
proof -
  have n: "0 < n" using assms(1) by simp
  obtain f where f: "fftfreq (PyInt n) = Inr f" using fftfreq_pos[OF n] by blast
  have "\<forall>x \<in> set (s_scale_init n f). fmin \<le> x"
    using s_scale_init_lower[OF n f] assms(3) by force
  then have ix: "cutoff_ix fmin (s_scale_init n f) = 0" by (rule cutoff_ix_zero)
  have lc: "low_cutoff fmin (s_scale_init n f) = s_scale_init n f"
    by (rule low_cutoff_ix_zero[OF ix])
  have sc: "s_scale_of e n fmin f = s_scale_of e n 0 f"
    using lc by (simp add: s_scale_of_def low_cutoff_def)
  have "powerlaw_psd_gaussian e sz fmin g = powerlaw_psd_gaussian e sz 0 g"
    if "last_item (size_list sz) = Inr (PyInt n)" for sz g
    using that f by (simp add: powerlaw_psd_gaussian_def Let_def sc cong: sum.case_cong)
  then show ?thesis using f ix lc sc by blast
qed

theorem small_fmin_no_cutoff_witness:
  "(1::int) \<le> 4 \<and> (0::real) < 1/4 \<and> (1/4::real) \<le> 1 / real_of_int 4
   \<and> last_item (size_list (PySeq [PyInt 3, PyInt 4])) = Inr (PyInt 4)
   \<and> powerlaw_psd_gaussian 1 (PySeq [PyInt 3, PyInt 4]) (1/4) (\<lambda>i. real i)
       = powerlaw_psd_gaussian 1 (PySeq [PyInt 3, PyInt 4]) 0 (\<lambda>i. real i)"
proof -
  have h1: "(1::int) \<le> 4" and h2: "(0::real) < 1/4" and h3: "(1/4::real) \<le> 1 / real_of_int 4"
    by simp_all
  have l: "last_item (size_list (PySeq [PyInt 3, PyInt 4])) = Inr (PyInt 4)"
    by (simp add: last_item_def)
  show ?thesis using small_fmin_no_cutoff[OF h1 h2 h3, of 1] l h1 h2 h3 by blast
qed

subsection \<open>The variance normalizer\<close>

lemma nyquist_factor_cases: "nyquist_factor n = (if even n then 1 / 2 else 1)"
proof (cases "even n")
  case True
  then have "n mod 2 = 0" by presburger
  then show ?thesis using True by (simp add: nyquist_factor_def)
next
  case False
  then have "n mod 2 = 1" by presburger
  then show ?thesis using False by (simp add: nyquist_factor_def)
qed

lemma weights_of_nth:
  assumes "k < length sc"
  shows "weights_of n sc ! k =
           (if k = length sc - 1 then (sc[0 := 0] ! k * nyquist_factor n)\<^sup>2
            else (sc[0 := 0] ! k)\<^sup>2)"
  using assms by (simp add: weights_of_def Let_def nth_list_update)

lemma length_weights_of: "length (weights_of n sc) = length sc"
  by (simp add: weights_of_def Let_def)

lemma weights_of_odd:
  assumes "odd n"
  shows "weights_of n sc = map (\<lambda>x. x\<^sup>2) (sc[0 := 0])"
  using assms by (simp add: weights_of_def Let_def nyquist_factor_cases)

lemma spec_weights_odd:
  assumes "odd n"
  shows "spec_weights n sc = map (\<lambda>x. x\<^sup>2) (sc[0 := 0])"
  using assms by (simp add: spec_weights_def Let_def nyquist_factor_cases map_update)

lemma sum_list_weights_of:
  "sum_list (weights_of n sc) =
     (\<Sum>k = 0..<length sc.
        if k = 0 then 0
        else if k = length sc - 1 then (sc ! k * nyquist_factor n)\<^sup>2
        else (sc ! k)\<^sup>2)"
proof -
  have "sum_list (weights_of n sc) = (\<Sum>k = 0..<length sc. weights_of n sc ! k)"
    by (simp add: sum_list_sum_nth length_weights_of)
  also have "\<dots> = (\<Sum>k = 0..<length sc.
        if k = 0 then 0
        else if k = length sc - 1 then (sc ! k * nyquist_factor n)\<^sup>2
        else (sc ! k)\<^sup>2)"
  proof (rule sum.cong)
    fix k assume "k \<in> {0..<length sc}"
    then have k: "k < length sc" by simp
    have z: "sc[0 := 0] ! 0 = 0" using k by (cases sc) auto
    have nz: "sc[0 := 0] ! k = sc ! k" if "k \<noteq> 0" using that by simp
    show "weights_of n sc ! k =
        (if k = 0 then 0
         else if k = length sc - 1 then (sc ! k * nyquist_factor n)\<^sup>2
         else (sc ! k)\<^sup>2)"
    proof (cases "k = 0")
      case True
      then show ?thesis using k z by (simp add: weights_of_nth)
    next
      case False
      then show ?thesis using k nz by (simp add: weights_of_nth)
    qed
  qed simp
  finally show ?thesis .
qed

text \<open>
  The run at \<open>samples = 2\<close>, \<open>exponent = 0\<close>, \<open>fmin = 0\<close>: the grid is \<open>[0, -1/2]\<close>, the
  scale vector \<open>[1, 1]\<close>.
\<close>

lemma fftfreq_2: "fftfreq (PyInt 2) = Inr [0, - (1 / 2)]"
  by (simp add: fftfreq_def Let_def upto.simps)

lemma s_scale_of_2: "s_scale_of 0 2 0 [0, - (1 / 2)] = [1, 1]"
  by (simp add: s_scale_of_def low_cutoff_def apply_exponent_def s_scale_init_def)

lemma theoretical_std_2: "theoretical_std 2 [1, 1] = 1 / 2"
  by (simp add: theoretical_std_def weights_of_def Let_def nyquist_factor_def power2_eq_square
        real_sqrt_divide)

lemma spec_std_2: "spec_std 2 [1, 1] = sqrt (1 / 2)"
  by (simp add: spec_std_def spec_weights_def Let_def nyquist_factor_def)

lemma sqrt_half_ne_half: "sqrt (1 / 2) \<noteq> 1 / 2"
proof
  assume a: "sqrt (1 / 2) = 1 / 2"
  have "(sqrt (1 / 2))\<^sup>2 = (1 / 2 :: real)" by simp
  then have "(1 / 2 :: real)\<^sup>2 = 1 / 2" unfolding a .
  then show False by (simp add: power2_eq_square)
qed

text \<open>
  Claim C2 says that the factor \<open>(1 + samples % 2) / 2\<close> is 1 for both parities, so that
  the multiplication of the last weight is a no-op. At \<open>samples = 2\<close> the factor is
  \<open>1/2\<close>, and on the scale vector \<open>[1, 1]\<close> of that run the weights are not those
  obtained without the multiplication.
\<close>

theorem nyquist_factor_not_one:
  "nyquist_factor 2 \<noteq> 1 \<and> weights_of 2 [1, 1] \<noteq> map (\<lambda>x. x\<^sup>2) ([1, 1][0 := 0])"
  by (simp add: nyquist_factor_def weights_of_def Let_def power2_eq_square)

text \<open>
  Claim C2, amended. The factor \<open>(1 + samples % 2) / 2\<close> is 1 when \<open>samples\<close> is odd and
  \<open>1/2\<close> when it is even. For odd \<open>samples\<close> the multiplication is a no-op: the weights
  are the squares of the scale vector with its first entry zeroed, and the standard
  deviation is computed from them. For even \<open>samples\<close> the last entry is halved before
  the squaring.
\<close>

theorem nyquist_factor_by_parity:
  "nyquist_factor n = (if even n then 1 / 2 else 1)
   \<and> (odd n \<longrightarrow> weights_of n sc = map (\<lambda>x. x\<^sup>2) (sc[0 := 0])
               \<and> theoretical_std n sc
                   = 2 * sqrt (sum_list (map (\<lambda>x. x\<^sup>2) (sc[0 := 0]))) / real_of_int n)
   \<and> (even n \<longrightarrow> weights_of n sc
                   = map (\<lambda>x. x\<^sup>2)
                       ((sc[0 := 0])[length sc - 1 := (sc[0 := 0]) ! (length sc - 1) / 2]))"
  by (simp add: nyquist_factor_cases weights_of_odd theoretical_std_def)
     (simp add: weights_of_def Let_def nyquist_factor_cases)

theorem nyquist_factor_by_parity_witness:
  "odd (3::int) \<and> nyquist_factor 3 = 1 \<and> weights_of 3 [2, 3] = [0, 9]
   \<and> even (2::int) \<and> nyquist_factor 2 = 1 / 2 \<and> weights_of 2 [2, 4] = [0, 4]"
proof -
  have o: "odd (3::int)" and e: "even (2::int)" by simp_all
  show ?thesis
    using nyquist_factor_by_parity[of 3 "[2, 3]"] nyquist_factor_by_parity[of 2 "[2, 4]"] o e
    by simp
qed

subsection \<open>Runs of the function\<close>

text \<open>Once \<open>fftfreq\<close> has accepted \<open>samples\<close>, only the draws can fail.\<close>

lemma run_unfold:
  assumes "last_item (size_list sz) = Inr (PyInt n)" "0 < n" "fftfreq (PyInt n) = Inr f"
  shows "powerlaw_psd_gaussian e sz fmin g =
     (case draw_spectrum n (butlast (size_list sz) @ [PyInt (n div 2 + 1)]) g of
        Inl err \<Rightarrow> Inl err
      | Inr (s, g2) \<Rightarrow>
          Inr (divide_by (irfft (scale_rows s (s_scale_of e n fmin f)) (nat n))
                         (theoretical_std n (s_scale_of e n fmin f)), g2))"
proof -
  have "int (length (s_scale_init n f)) = n div 2 + 1"
    using length_s_scale_init[OF assms(2,3)] assms(2) by simp
  then show ?thesis
    using assms by (simp add: powerlaw_psd_gaussian_def Let_def split: sum.splits prod.splits)
qed

lemma run_Inr_samples:
  assumes "powerlaw_psd_gaussian e sz fmin g = Inr (out, g')"
  shows "\<exists>n. last_item (size_list sz) = Inr (PyInt n) \<and> 0 < n"
proof -
  obtain v where v: "last_item (size_list sz) = Inr v"
    using assms by (auto simp: powerlaw_psd_gaussian_def Let_def split: sum.splits)
  then obtain f where f: "fftfreq v = Inr f"
    using assms by (auto simp: powerlaw_psd_gaussian_def Let_def split: sum.splits)
  then obtain n where "v = PyInt n" "0 < n"
    by (cases v) (auto simp: fftfreq_def split: if_splits)
  then show ?thesis using v by blast
qed

text \<open>
  The run at \<open>samples = 2\<close>, \<open>exponent = 0\<close>, \<open>fmin = 0\<close>, in full: two real draws
  \<open>a\<close> and \<open>b\<close>, both imaginary parts zeroed, the inverse transform
  \<open>[(a + b)/2, (a - b)/2]\<close>, and the division by the standard deviation \<open>1/2\<close>.
\<close>

lemma upt_2: "[0..<2] = [0, 1]"
  by (simp add: upt_rec)

lemma normal_2: "normal [PyInt 2] g = Inr (\<lparr>shape = [2], rows = [[g 0, g 1]]\<rparr>, \<lambda>i. g (i + 2))"
  by (simp add: normal_def dims_of_def Let_def upt_2)

lemma draw_spectrum_2:
  "draw_spectrum 2 [PyInt 2] g =
     Inr (\<lparr>shape = [2], rows = [[Complex (g 0) 0, Complex (g 1) 0]]\<rparr>, \<lambda>i. g (i + 2 + 2))"
  by (simp add: draw_spectrum_def normal_2 spectrum_def imag_part_def zero_first_def zero_last_def)

lemma irfft_row_2: "irfft_row 2 [Complex a 0, Complex b 0] = [(a + b) / 2, (a - b) / 2]"
  by (simp add: irfft_row_def coef_def upt_2)

lemma run_2:
  "powerlaw_psd_gaussian 0 (PyInt 2) 0 g =
     Inr (\<lparr>shape = [2], rows = [[np_div ((g 0 + g 1) / 2) (1 / 2), np_div ((g 0 - g 1) / 2) (1 / 2)]]\<rparr>,
          \<lambda>i. g (i + 2 + 2))"
proof -
  have l: "last_item (size_list (PyInt 2)) = Inr (PyInt 2)" by (simp add: last_item_def)
  have sr: "scale_rows \<lparr>shape = [2], rows = [[Complex (g 0) 0, Complex (g 1) 0]]\<rparr> [1, 1]
      = \<lparr>shape = [2], rows = [[Complex (g 0) 0, Complex (g 1) 0]]\<rparr>"
    by (simp add: scale_rows_def)
  have "powerlaw_psd_gaussian 0 (PyInt 2) 0 g =
     Inr (divide_by (irfft (scale_rows \<lparr>shape = [2], rows = [[Complex (g 0) 0, Complex (g 1) 0]]\<rparr> [1, 1]) 2)
                         (1 / 2), \<lambda>i. g (i + 2 + 2))"
    using run_unfold[OF l _ fftfreq_2, of 0 0 g]
    by (simp add: draw_spectrum_2 s_scale_of_2 theoretical_std_2)
  then show ?thesis
    unfolding sr by (simp add: irfft_def irfft_row_2 divide_by_def)
qed

lemma run_2_example:
  "powerlaw_psd_gaussian 0 (PyInt 2) 0 (\<lambda>i. real i + 1) =
     Inr (\<lparr>shape = [2], rows = [[Fin 3, Fin (- 1)]]\<rparr>, \<lambda>i. real i + 5)"
  by (simp add: run_2 np_div_def add.commute)

text \<open>
  Claim C3 has the weights squared first, the first one zeroed next, and the last one
  multiplied by \<open>(1 + samples % 2) / 2\<close> last. The source zeroes and multiplies the
  entries of the scale vector and squares afterwards. At \<open>samples = 2\<close>,
  \<open>exponent = 0\<close> the source's standard deviation is \<open>1/2\<close> and the one of the
  claim's order is \<open>sqrt (1/2)\<close>.
\<close>

theorem std_differs_from_spec_order:
  "fftfreq (PyInt 2) = Inr [0, - (1 / 2)]
   \<and> s_scale_of 0 2 0 [0, - (1 / 2)] = [1, 1]
   \<and> theoretical_std 2 (s_scale_of 0 2 0 [0, - (1 / 2)]) = 1 / 2
   \<and> spec_std 2 (s_scale_of 0 2 0 [0, - (1 / 2)]) = sqrt (1 / 2)
   \<and> theoretical_std 2 (s_scale_of 0 2 0 [0, - (1 / 2)])
       \<noteq> spec_std 2 (s_scale_of 0 2 0 [0, - (1 / 2)])"
  using sqrt_half_ne_half
  by (simp only: fftfreq_2 s_scale_of_2 theoretical_std_2 spec_std_2) simp

text \<open>
  Claim C3, amended. The theoretical standard deviation is
  \<open>2 * sqrt (sum of weights) / samples\<close>, where the weights are obtained by zeroing the
  first entry of the applied scale vector, then multiplying its last entry by
  \<open>(1 + samples % 2) / 2\<close>, then squaring each entry: weight 0 is 0, the last weight
  is the square of the scaled last entry, every other weight is the square of its
  entry. For odd \<open>samples\<close> this is the standard deviation of the claim's order. The
  array a successful call returns is the inverse transform of the scaled spectrum,
  divided elementwise by this standard deviation.
\<close>

theorem std_from_scaled_then_squared:
  "theoretical_std n sc =
      2 * sqrt (\<Sum>k = 0..<length sc.
                  if k = 0 then 0
                  else if k = length sc - 1 then (sc ! k * nyquist_factor n)\<^sup>2
                  else (sc ! k)\<^sup>2) / real_of_int n
   \<and> (odd n \<longrightarrow> theoretical_std n sc = spec_std n sc)
   \<and> (\<forall>sz g out g'. powerlaw_psd_gaussian e sz fmin g = Inr (out, g') \<longrightarrow>
         (\<exists>m f s. last_item (size_list sz) = Inr (PyInt m) \<and> fftfreq (PyInt m) = Inr f
            \<and> draw_spectrum m (butlast (size_list sz) @ [PyInt (m div 2 + 1)]) g = Inr (s, g')
            \<and> out = divide_by (irfft (scale_rows s (s_scale_of e m fmin f)) (nat m))
                               (theoretical_std m (s_scale_of e m fmin f))))"
proof -
  have a: "theoretical_std n sc =
      2 * sqrt (\<Sum>k = 0..<length sc.
                  if k = 0 then 0
                  else if k = length sc - 1 then (sc ! k * nyquist_factor n)\<^sup>2
                  else (sc ! k)\<^sup>2) / real_of_int n"
    by (simp only: theoretical_std_def sum_list_weights_of)
  have b: "theoretical_std n sc = spec_std n sc" if "odd n"
    using that by (simp add: theoretical_std_def spec_std_def weights_of_odd spec_weights_odd)
  have c: "\<exists>m f s. last_item (size_list sz) = Inr (PyInt m) \<and> fftfreq (PyInt m) = Inr f
            \<and> draw_spectrum m (butlast (size_list sz) @ [PyInt (m div 2 + 1)]) g = Inr (s, g')
            \<and> out = divide_by (irfft (scale_rows s (s_scale_of e m fmin f)) (nat m))
                               (theoretical_std m (s_scale_of e m fmin f))"
    if run: "powerlaw_psd_gaussian e sz fmin g = Inr (out, g')" for sz g out g'
  proof -
    obtain m where m: "last_item (size_list sz) = Inr (PyInt m)" "0 < m"
      using run_Inr_samples[OF run] by blast
    obtain f where f: "fftfreq (PyInt m) = Inr f" using fftfreq_pos[OF m(2)] by blast
    show ?thesis
      using run m(1) f unfolding run_unfold[OF m f]
      by (auto split: sum.splits prod.splits)
  qed
  show ?thesis using a b c by blast
qed

theorem std_from_scaled_then_squared_witness:
  "odd (3::int) \<and> theoretical_std 3 [2, 2] = 4 / 3 \<and> spec_std 3 [2, 2] = 4 / 3
   \<and> powerlaw_psd_gaussian 0 (PyInt 2) 0 (\<lambda>i. real i + 1)
        = Inr (\<lparr>shape = [2], rows = [[Fin 3, Fin (- 1)]]\<rparr>, \<lambda>i. real i + 5)
   \<and> (\<exists>s. draw_spectrum 2 [PyInt 2] (\<lambda>i. real i + 1) = Inr (s, \<lambda>i. real i + 5)
          \<and> \<lparr>shape = [2], rows = [[Fin 3, Fin (- 1)]]\<rparr>
              = divide_by (irfft (scale_rows s [1, 1]) 2) (theoretical_std 2 [1, 1]))"
proof -
  have o: "odd (3::int)" by simp
  have t: "theoretical_std 3 [2, 2] = 4 / 3"
    by (simp add: theoretical_std_def weights_of_def Let_def nyquist_factor_def)
  have s: "spec_std 3 [2, 2] = 4 / 3"
    using std_from_scaled_then_squared[of 3 "[2, 2]" 0 0] o t by simp
  have l: "last_item (size_list (PyInt 2)) = Inr (PyInt 2)" by (simp add: last_item_def)
  have "\<exists>m f s. last_item (size_list (PyInt 2)) = Inr (PyInt m) \<and> fftfreq (PyInt m) = Inr f
            \<and> draw_spectrum m (butlast (size_list (PyInt 2)) @ [PyInt (m div 2 + 1)]) (\<lambda>i. real i + 1)
                = Inr (s, \<lambda>i. real i + 5)
            \<and> \<lparr>shape = [2], rows = [[Fin 3, Fin (- 1)]]\<rparr>
                = divide_by (irfft (scale_rows s (s_scale_of 0 m 0 f)) (nat m))
                               (theoretical_std m (s_scale_of 0 m 0 f))"
    using std_from_scaled_then_squared[of 3 "[2, 2]" 0 0] run_2_example by blast
  then obtain m f s where
    m: "last_item (size_list (PyInt 2)) = Inr (PyInt m)" and f: "fftfreq (PyInt m) = Inr f"
    and d: "draw_spectrum m (butlast (size_list (PyInt 2)) @ [PyInt (m div 2 + 1)]) (\<lambda>i. real i + 1)
                = Inr (s, \<lambda>i. real i + 5)"
    and out: "\<lparr>shape = [2], rows = [[Fin 3, Fin (- 1)]]\<rparr>
                = divide_by (irfft (scale_rows s (s_scale_of 0 m 0 f)) (nat m))
                               (theoretical_std m (s_scale_of 0 m 0 f))"
    by blast
  have m2: "m = 2" using m l by simp
  have f2: "f = [0, - (1 / 2)]" using f fftfreq_2 m2 by simp
  have "draw_spectrum 2 [PyInt 2] (\<lambda>i. real i + 1) = Inr (s, \<lambda>i. real i + 5)"
    using d m2 by simp
  moreover have "\<lparr>shape = [2], rows = [[Fin 3, Fin (- 1)]]\<rparr>
              = divide_by (irfft (scale_rows s [1, 1]) 2) (theoretical_std 2 [1, 1])"
    using out m2 f2 by (simp add: s_scale_of_2)
  ultimately show ?thesis using o t s run_2_example by blast
qed


subsection \<open>The spectrum\<close>

text \<open>
  The arrays of draws in closed form. With batch dimensions \<open>ns\<close> and \<open>M\<close> bins, entry
  \<open>c\<close> of row \<open>r\<close> of the spectrum has the real part \<open>g (r * M + c)\<close>, and the imaginary
  part \<open>g (r * M + c + B * M)\<close> unless one of the two writes has zeroed it.
\<close>

lemma map_upt_update:
  "(map h [0..<M])[j := v] = map (\<lambda>c. if c = j then v else h c) [0..<M]"
  by (rule nth_equalityI) (auto simp: nth_list_update)

lemma dims_of_snoc:
  assumes "0 \<le> m"
  shows "dims_of (bs @ [PyInt m]) =
           (case dims_of bs of Inl e \<Rightarrow> Inl e | Inr ns \<Rightarrow> Inr (ns @ [nat m]))"
  using assms by (auto simp: dims_of_def)

lemma normal_snoc:
  assumes "dims_of bs = Inr ns"
  shows "normal (bs @ [PyInt (int M)]) g =
     Inr (\<lparr>shape = ns @ [M],
            rows = map (\<lambda>r. map (\<lambda>c. g (r * M + c)) [0..<M]) [0..<prod_list ns]\<rparr>,
          \<lambda>i. g (i + prod_list ns * M))"
  using assms by (simp add: normal_def dims_of_snoc Let_def)

lemma normal_snoc_err:
  assumes "dims_of bs = Inl e"
  shows "normal (bs @ [PyInt (int M)]) g = Inl e"
  using assms by (simp add: normal_def dims_of_snoc)

lemma imag_part_rows:
  "rows (imag_part n \<lparr>shape = sh, rows = map (\<lambda>r. map (h r) [0..<M]) [0..<B]\<rparr>)
     = map (\<lambda>r. map (\<lambda>c. if c = 0 then 0 else if even n \<and> c = M - 1 then 0 else h r c)
                    [0..<M]) [0..<B]"
proof (cases "even n")
  case True
  then have "n mod 2 = 0" by presburger
  then show ?thesis using True
    by (simp add: imag_part_def zero_first_def zero_last_def map_upt_update o_def)
next
  case False
  then have "n mod 2 \<noteq> 0" by presburger
  then show ?thesis using False
    by (simp add: imag_part_def zero_first_def zero_last_def map_upt_update o_def)
qed

lemma draw_spectrum_snoc:
  assumes "dims_of bs = Inr ns"
  shows "draw_spectrum n (bs @ [PyInt (int M)]) g =
     Inr (\<lparr>shape = ns @ [M],
            rows = map (\<lambda>r. map (\<lambda>c. Complex (g (r * M + c))
                                    (if c = 0 then 0 else if even n \<and> c = M - 1 then 0
                                     else g (r * M + c + prod_list ns * M)))
                          [0..<M]) [0..<prod_list ns]\<rparr>,
          \<lambda>i. g (i + prod_list ns * M + prod_list ns * M))"
  by (simp add: draw_spectrum_def normal_snoc[OF assms] spectrum_def imag_part_rows
        zip_map_map zip_same_conv_map o_def)

lemma draw_spectrum_snoc_err:
  assumes "dims_of bs = Inl e"
  shows "draw_spectrum n (bs @ [PyInt (int M)]) g = Inl e"
  by (simp add: draw_spectrum_def normal_snoc_err[OF assms])

lemma upt_3: "[0..<3] = [0, 1, 2]"
  by (simp add: upt_rec)

lemma upt_1: "[0..<1] = [0]"
  by simp

lemma draw_spectrum_batch_4:
  "draw_spectrum 4 ([PyInt 2] @ [PyInt (4 div 2 + 1)]) (\<lambda>i. real i + 1) =
     Inr (\<lparr>shape = [2, 3],
            rows = [[Complex 1 0, Complex 2 8, Complex 3 0],
                    [Complex 4 0, Complex 5 11, Complex 6 0]]\<rparr>,
          \<lambda>i. real i + 13)"
proof -
  have d: "dims_of [PyInt 2] = Inr [2]" by (simp add: dims_of_def)
  have m: "PyInt (4 div 2 + 1) = PyInt (int 3)" by simp
  show ?thesis
    unfolding m draw_spectrum_snoc[OF d]
    by (simp add: upt_3 upt_2 add.commute)
qed

lemma draw_spectrum_3:
  "draw_spectrum 3 ([] @ [PyInt (3 div 2 + 1)]) (\<lambda>i. real i + 1) =
     Inr (\<lparr>shape = [2], rows = [[Complex 1 0, Complex 2 4]]\<rparr>, \<lambda>i. real i + 5)"
proof -
  have d: "dims_of [] = Inr []" by (simp add: dims_of_def)
  have m: "PyInt (3 div 2 + 1) = PyInt (int 2)" by simp
  show ?thesis
    unfolding m draw_spectrum_snoc[OF d]
    by (simp add: upt_2 add.commute)
qed

lemma normal_1: "normal [PyInt 1] g = Inr (\<lparr>shape = [1], rows = [[g 0]]\<rparr>, \<lambda>i. g (i + 1))"
  by (simp add: normal_def dims_of_def Let_def)

text \<open>
  Claim C6 ends on: when \<open>samples\<close> is odd the imaginary part of the last bin is not
  constrained. At \<open>samples = 1\<close> there is one bin, so the last bin is the
  zero-frequency bin: the draw for its imaginary part is 2 on this stream, and the
  spectrum holds 0.
\<close>

theorem last_bin_constrained_at_one_sample:
  "odd (1::int)
   \<and> normal [PyInt 1] (\<lambda>i. real i + 1) = Inr (\<lparr>shape = [1], rows = [[1]]\<rparr>, \<lambda>i. real i + 2)
   \<and> normal [PyInt 1] (\<lambda>i. real i + 2) = Inr (\<lparr>shape = [1], rows = [[2]]\<rparr>, \<lambda>i. real i + 3)
   \<and> draw_spectrum 1 [PyInt 1] (\<lambda>i. real i + 1)
        = Inr (\<lparr>shape = [1], rows = [[Complex 1 0]]\<rparr>, \<lambda>i. real i + 3)
   \<and> Im (last [Complex 1 0]) \<noteq> 2"
  by (simp add: normal_1 draw_spectrum_def spectrum_def imag_part_def zero_first_def add.commute)

text \<open>
  Claim C6, amended. In every row of the spectrum (every batch element) the imaginary
  part of bin 0 is 0, and when \<open>samples\<close> is even the imaginary part of the last bin
  is 0, before the spectrum is scaled and transformed. When \<open>samples\<close> is odd and at
  least 3, the imaginary part of the last bin is the draw itself. (At \<open>samples = 1\<close>
  the last bin is bin 0.)
\<close>

theorem spectrum_imaginary_parts:
  assumes "1 \<le> n" "draw_spectrum n (bs @ [PyInt (n div 2 + 1)]) g = Inr (s, g')"
  shows "(\<forall>r \<in> set (rows s). length r = nat (n div 2 + 1) \<and> Im (r ! 0) = 0
             \<and> (even n \<longrightarrow> Im (last r) = 0))
       \<and> (odd n \<and> 3 \<le> n \<longrightarrow>
             (\<forall>i < length (rows s).
                Im (last (rows s ! i))
                  = g (i * nat (n div 2 + 1) + nat (n div 2)
                       + length (rows s) * nat (n div 2 + 1))))"
proof -
  let ?M = "nat (n div 2 + 1)"
  have M: "n div 2 + 1 = int ?M" "0 < ?M" "?M - 1 = nat (n div 2)" using assms(1) by simp_all
  obtain ns where ns: "dims_of bs = Inr ns"
    using assms(2) draw_spectrum_snoc_err[of bs _ n ?M g] M(1)
    by (cases "dims_of bs") auto
  let ?B = "prod_list ns"
  let ?row = "\<lambda>r. map (\<lambda>c. Complex (g (r * ?M + c))
                                    (if c = 0 then 0 else if even n \<and> c = ?M - 1 then 0
                                     else g (r * ?M + c + ?B * ?M)))
                          [0..<?M]"
  have s: "rows s = map ?row [0..<?B]"
    using assms(2) draw_spectrum_snoc[OF ns, of n ?M g] M(1) by auto
  have len: "length (?row r) = ?M" for r by simp
  have dc: "Im (?row r ! 0) = 0" for r using M(2) by simp
  have lst: "last (?row r) = ?row r ! (?M - 1)" for r
    using M(2) by (simp add: last_conv_nth)
  have ny: "Im (last (?row r)) = 0" if "even n" for r
    unfolding lst using that M(2) by simp
  have a: "\<forall>r \<in> set (rows s). length r = ?M \<and> Im (r ! 0) = 0 \<and> (even n \<longrightarrow> Im (last r) = 0)"
    unfolding s using len dc ny by auto
  have b: "Im (last (rows s ! i)) = g (i * ?M + nat (n div 2) + length (rows s) * ?M)"
    if "odd n" "3 \<le> n" "i < length (rows s)" for i
  proof -
    have i: "i < ?B" using that(3) s by simp
    have ne: "?M - 1 \<noteq> 0" using that(2) M(3) by simp
    have "rows s ! i = ?row i" using i s by simp
    then have "Im (last (rows s ! i)) = Im (?row i ! (?M - 1))" using lst by simp
    also have "\<dots> = g (i * ?M + (?M - 1) + ?B * ?M)"
      using M(2) ne that(1) by simp
    finally show ?thesis using M(3) s by simp
  qed
  show ?thesis using a b by blast
qed

theorem spectrum_imaginary_parts_witness:
  "(1::int) \<le> 4
   \<and> draw_spectrum 4 ([PyInt 2] @ [PyInt (4 div 2 + 1)]) (\<lambda>i. real i + 1) =
       Inr (\<lparr>shape = [2, 3],
              rows = [[Complex 1 0, Complex 2 8, Complex 3 0],
                      [Complex 4 0, Complex 5 11, Complex 6 0]]\<rparr>,
            \<lambda>i. real i + 13)
   \<and> Im ([Complex 4 0, Complex 5 11, Complex 6 0] ! 0) = 0
   \<and> Im (last [Complex 4 0, Complex 5 11, Complex 6 0]) = 0
   \<and> (1::int) \<le> 3 \<and> odd (3::int)
   \<and> draw_spectrum 3 ([] @ [PyInt (3 div 2 + 1)]) (\<lambda>i. real i + 1) =
       Inr (\<lparr>shape = [2], rows = [[Complex 1 0, Complex 2 4]]\<rparr>, \<lambda>i. real i + 5)
   \<and> Im (last [Complex 1 0, Complex 2 4]) = real 3 + 1"
proof -
  have h4: "(1::int) \<le> 4" and h3: "(1::int) \<le> 3" and o3: "odd (3::int)" by simp_all
  have a: "Im ([Complex 4 0, Complex 5 11, Complex 6 0] ! 0) = 0
           \<and> Im (last [Complex 4 0, Complex 5 11, Complex 6 0]) = 0"
    using spectrum_imaginary_parts[OF h4 draw_spectrum_batch_4] by simp
  have b: "Im (last [Complex 1 0, Complex 2 4]) = real 3 + 1"
    using spectrum_imaginary_parts[OF h3 draw_spectrum_3] o3 by simp
  show ?thesis using h4 h3 o3 a b draw_spectrum_batch_4 draw_spectrum_3 by blast
qed


subsection \<open>Shapes and failures\<close>

text \<open>
  A run in closed form: when \<open>size\<close> lists batch dimensions \<open>bs\<close> that \<open>normal\<close>
  accepts and a positive integer \<open>samples = n\<close>, the call succeeds; when \<open>normal\<close>
  rejects \<open>bs\<close>, when \<open>fftfreq\<close> rejects \<open>samples\<close>, or when the list is empty, it
  fails with that error.
\<close>

lemma size_list_snoc_last_item:
  assumes "size_list sz = bs @ [v]"
  shows "last_item (size_list sz) = Inr v" "butlast (size_list sz) = bs"
  using assms by (simp_all add: last_item_def)

lemma run_ok:
  assumes sz: "size_list sz = bs @ [PyInt n]" and n: "0 < n"
      and f: "fftfreq (PyInt n) = Inr f" and bs: "dims_of bs = Inr ns"
  shows "powerlaw_psd_gaussian e sz fmin g =
     Inr (\<lparr>shape = ns @ [nat n],
            rows = map (\<lambda>r. map (\<lambda>x. np_div x (theoretical_std n (s_scale_of e n fmin f)))
                            (irfft_row (nat n)
                               (map2 (\<lambda>z c. z * complex_of_real c)
                                  (map (\<lambda>c. Complex (g (r * nat (n div 2 + 1) + c))
                                     (if c = 0 then 0
                                      else if even n \<and> c = nat (n div 2 + 1) - 1 then 0
                                      else g (r * nat (n div 2 + 1) + c
                                              + prod_list ns * nat (n div 2 + 1))))
                                    [0..<nat (n div 2 + 1)])
                                  (s_scale_of e n fmin f))))
                       [0..<prod_list ns]\<rparr>,
          \<lambda>i. g (i + prod_list ns * nat (n div 2 + 1) + prod_list ns * nat (n div 2 + 1)))"
proof -
  have M: "n div 2 + 1 = int (nat (n div 2 + 1))" using n by simp
  have d: "draw_spectrum n (butlast (size_list sz) @ [PyInt (n div 2 + 1)]) g =
     Inr (\<lparr>shape = ns @ [nat (n div 2 + 1)],
            rows = map (\<lambda>r. map (\<lambda>c. Complex (g (r * nat (n div 2 + 1) + c))
                                    (if c = 0 then 0
                                      else if even n \<and> c = nat (n div 2 + 1) - 1 then 0
                                      else g (r * nat (n div 2 + 1) + c
                                              + prod_list ns * nat (n div 2 + 1))))
                          [0..<nat (n div 2 + 1)]) [0..<prod_list ns]\<rparr>,
          \<lambda>i. g (i + prod_list ns * nat (n div 2 + 1) + prod_list ns * nat (n div 2 + 1)))"
    using draw_spectrum_snoc[OF bs, of n "nat (n div 2 + 1)" g] M
      size_list_snoc_last_item(2)[OF sz] by simp
  show ?thesis
    unfolding run_unfold[OF size_list_snoc_last_item(1)[OF sz] n f] d
    by (simp add: irfft_def scale_rows_def divide_by_def o_def)
qed

lemma run_dims_err:
  assumes sz: "size_list sz = bs @ [PyInt n]" and n: "0 < n" and bs: "dims_of bs = Inl err"
  shows "powerlaw_psd_gaussian e sz fmin g = Inl err"
proof -
  obtain f where f: "fftfreq (PyInt n) = Inr f" using fftfreq_pos[OF n] by blast
  have M: "n div 2 + 1 = int (nat (n div 2 + 1))" using n by simp
  have d: "draw_spectrum n (butlast (size_list sz) @ [PyInt (n div 2 + 1)]) g = Inl err"
    using draw_spectrum_snoc_err[OF bs, of n "nat (n div 2 + 1)" g] M
      size_list_snoc_last_item(2)[OF sz] by simp
  show ?thesis
    unfolding run_unfold[OF size_list_snoc_last_item(1)[OF sz] n f] d by simp
qed

lemma run_empty:
  assumes "size_list sz = []"
  shows "powerlaw_psd_gaussian e sz fmin g = Inl IndexError"
  using assms by (simp add: powerlaw_psd_gaussian_def last_item_def)

lemma fftfreq_err:
  assumes "\<forall>n. v = PyInt n \<longrightarrow> n \<le> 0"
  shows "fftfreq v = Inl (if v = PyInt 0 then ZeroDivisionError else ValueError)"
  using assms by (cases v) (auto simp: fftfreq_def)

lemma run_samples_err:
  assumes "size_list sz \<noteq> []" "\<forall>n. last (size_list sz) = PyInt n \<longrightarrow> n \<le> 0"
  shows "powerlaw_psd_gaussian e sz fmin g =
           Inl (if last (size_list sz) = PyInt 0 then ZeroDivisionError else ValueError)"
  using assms fftfreq_err[OF assms(2)]
  by (simp add: powerlaw_psd_gaussian_def last_item_def)

lemma dims_of_Inr:
  assumes "dims_of bs = Inr ns"
  shows "\<forall>d \<in> set bs. \<exists>k. d = PyInt k \<and> 0 \<le> k"
proof
  fix d assume d: "d \<in> set bs"
  have "is_int d" "\<not> int_of d < 0"
    using assms d by (auto simp: dims_of_def split: if_splits)
  then show "\<exists>k. d = PyInt k \<and> 0 \<le> k" by (cases d) auto
qed

lemma dims_of_bad:
  assumes "\<exists>d \<in> set bs. \<forall>k. d = PyInt k \<longrightarrow> k < 0"
  shows "\<exists>err. dims_of bs = Inl err"
proof (cases "dims_of bs")
  case (Inl err)
  then show ?thesis by blast
next
  case (Inr ns)
  then show ?thesis using dims_of_Inr[OF Inr] assms by force
qed


text \<open>
  Every entry of the scale vector is positive, with or without the cutoff, and from two
  bins on the standard deviation is positive.
\<close>

lemma low_cutoff_subset: "set (low_cutoff fmin s) \<subseteq> set s"
proof (cases "fmin \<noteq> 0 \<and> cutoff_ix fmin s < length s")
  case True
  then have "low_cutoff fmin s = replicate (cutoff_ix fmin s) (s ! cutoff_ix fmin s) @ drop (cutoff_ix fmin s) s"
    by (simp add: low_cutoff_def Let_def)
  moreover have "set (drop (cutoff_ix fmin s) s) \<subseteq> set s" by (rule set_drop_subset)
  moreover have "s ! cutoff_ix fmin s \<in> set s" using True by simp
  ultimately show ?thesis by auto
next
  case False
  then have "low_cutoff fmin s = s" by (auto simp: low_cutoff_def Let_def)
  then show ?thesis by simp
qed










text \<open>
  Claim C8 has every shape with a non-positive dimension fail with
  \<open>InvalidShapeError\<close>. The shape \<open>(0, 4)\<close> has a zero batch dimension, and the call
  returns an empty array of that shape, and consumes no draw. Where the function does
  fail, as on the shape \<open>0\<close>, the exception is one of Python or NumPy: the source
  defines or raises no exception of its own.
\<close>

theorem zero_batch_dimension_accepted:
  "powerlaw_psd_gaussian 1 (PySeq [PyInt 0, PyInt 4]) 0 (\<lambda>i. real i + 1)
     = Inr (\<lparr>shape = [0, 4], rows = []\<rparr>, \<lambda>i. real i + 1)
   \<and> powerlaw_psd_gaussian 1 (PyInt 0) 0 (\<lambda>i. real i + 1) = Inl ZeroDivisionError"
proof -
  have sz: "size_list (PySeq [PyInt 0, PyInt 4]) = [PyInt 0] @ [PyInt 4]" by simp
  obtain f where f: "fftfreq (PyInt 4) = Inr f" using fftfreq_pos[of 4] by auto
  have d: "dims_of [PyInt 0] = Inr [0]" by (simp add: dims_of_def)
  have n4: "(0::int) < 4" by simp
  have a: "powerlaw_psd_gaussian 1 (PySeq [PyInt 0, PyInt 4]) 0 (\<lambda>i. real i + 1)
     = Inr (\<lparr>shape = [0, 4], rows = []\<rparr>, \<lambda>i. real i + 1)"
    unfolding run_ok[OF sz n4 f d] by simp
  have b: "powerlaw_psd_gaussian 1 (PyInt 0) 0 (\<lambda>i. real i + 1) = Inl ZeroDivisionError"
    by (simp add: powerlaw_psd_gaussian_def last_item_def fftfreq_def)
  show ?thesis using a b by simp
qed

lemma dims_of_type_error:
  assumes "\<exists>d \<in> set bs. \<not> is_int d"
  shows "dims_of bs = Inl TypeError"
  using assms by (simp add: dims_of_def)

lemma dims_of_value_error:
  assumes "\<forall>d \<in> set bs. is_int d" "\<exists>d \<in> set bs. int_of d < 0"
  shows "dims_of bs = Inl ValueError"
  using assms by (auto simp: dims_of_def)

lemma dims_of_ok:
  assumes "\<forall>d \<in> set bs. is_int d \<and> 0 \<le> int_of d"
  shows "dims_of bs = Inr (map (\<lambda>d. nat (int_of d)) bs)"
  using assms by (auto simp: dims_of_def)

lemma run_zero_batch:
  assumes sz: "size_list sz = bs @ [PyInt n]" and n: "0 < n"
      and bs: "dims_of bs = Inr ns" and z: "0 \<in> set ns"
  shows "powerlaw_psd_gaussian e sz fmin g = Inr (\<lparr>shape = ns @ [nat n], rows = []\<rparr>, g)"
proof -
  obtain f where f: "fftfreq (PyInt n) = Inr f" using fftfreq_pos[OF n] by blast
  have p: "prod_list ns = 0" using z by (simp add: prod_list_zero_iff)
  show ?thesis unfolding run_ok[OF sz n f bs] p by simp
qed

text \<open>
  Claim C8, amended. For every shape argument that is an empty sequence, or whose last
  element (\<open>samples\<close>) is not a positive integer, or that has a batch dimension which
  is negative or not an integer, the function fails and produces no output. The
  failure is \<open>IndexError\<close> for the empty sequence, \<open>ZeroDivisionError\<close> for
  \<open>samples = 0\<close> and \<open>ValueError\<close> for any other \<open>samples\<close> that is not a positive
  integer; with a positive integer \<open>samples\<close> it is \<open>TypeError\<close> when a batch dimension
  is not an integer and \<open>ValueError\<close> when all are integers and one is negative; there
  is no \<open>InvalidShapeError\<close>. This covers every argument that is neither an integer
  nor an iterable of integers. A batch dimension of zero is accepted: when \<open>samples\<close>
  is a positive integer and the batch dimensions are integers, none negative and one
  zero, the call returns the empty array of the requested shape and consumes no draw.
\<close>

theorem invalid_shape_fails:
  "((size_list sz = []
      \<or> (\<forall>n. last (size_list sz) = PyInt n \<longrightarrow> n \<le> 0)
      \<or> (\<exists>d \<in> set (butlast (size_list sz)). \<forall>k. d = PyInt k \<longrightarrow> k < 0))
     \<longrightarrow> (\<exists>err. powerlaw_psd_gaussian e sz fmin g = Inl err))
   \<and> (size_list sz = [] \<longrightarrow> powerlaw_psd_gaussian e sz fmin g = Inl IndexError)
   \<and> (size_list sz \<noteq> [] \<and> (\<forall>n. last (size_list sz) = PyInt n \<longrightarrow> n \<le> 0) \<longrightarrow>
        powerlaw_psd_gaussian e sz fmin g
          = Inl (if last (size_list sz) = PyInt 0 then ZeroDivisionError else ValueError))
   \<and> (size_list sz \<noteq> [] \<and> (\<exists>n. last (size_list sz) = PyInt n \<and> 0 < n)
        \<and> (\<exists>d \<in> set (butlast (size_list sz)). \<not> is_int d) \<longrightarrow>
        powerlaw_psd_gaussian e sz fmin g = Inl TypeError)
   \<and> (size_list sz \<noteq> [] \<and> (\<exists>n. last (size_list sz) = PyInt n \<and> 0 < n)
        \<and> (\<forall>d \<in> set (butlast (size_list sz)). is_int d)
        \<and> (\<exists>d \<in> set (butlast (size_list sz)). int_of d < 0) \<longrightarrow>
        powerlaw_psd_gaussian e sz fmin g = Inl ValueError)
   \<and> (size_list sz \<noteq> [] \<and> (\<exists>n. last (size_list sz) = PyInt n \<and> 0 < n)
        \<and> (\<forall>d \<in> set (butlast (size_list sz)). is_int d \<and> 0 \<le> int_of d)
        \<and> (\<exists>d \<in> set (butlast (size_list sz)). int_of d = 0) \<longrightarrow>
        powerlaw_psd_gaussian e sz fmin g
          = Inr (\<lparr>shape = map (\<lambda>d. nat (int_of d)) (size_list sz), rows = []\<rparr>, g))"
proof -
  let ?run = "powerlaw_psd_gaussian e sz fmin g"
  let ?bs = "butlast (size_list sz)"
  have a: "?run = Inl IndexError" if "size_list sz = []"
    by (rule run_empty[OF that])
  have b: "?run = Inl (if last (size_list sz) = PyInt 0 then ZeroDivisionError else ValueError)"
    if "size_list sz \<noteq> []" "\<forall>n. last (size_list sz) = PyInt n \<longrightarrow> n \<le> 0"
    by (rule run_samples_err[OF that])
  have split: "size_list sz = ?bs @ [PyInt n]"
    if "size_list sz \<noteq> []" "last (size_list sz) = PyInt n" for n
    using that by (metis append_butlast_last_id)
  have c: "\<exists>err. ?run = Inl err"
    if ne: "size_list sz \<noteq> []" and pos: "\<not> (\<forall>n. last (size_list sz) = PyInt n \<longrightarrow> n \<le> 0)"
      and bad: "\<exists>d \<in> set ?bs. \<forall>k. d = PyInt k \<longrightarrow> k < 0"
  proof -
    obtain n where n: "last (size_list sz) = PyInt n" "0 < n" using pos by auto
    obtain err where "dims_of ?bs = Inl err"
      using dims_of_bad[OF bad] by blast
    then show ?thesis using run_dims_err[OF split[OF ne n(1)] n(2)] by blast
  qed
  have d: "?run = Inl TypeError"
    if h1: "size_list sz \<noteq> []" and h2: "\<exists>n. last (size_list sz) = PyInt n \<and> 0 < n"
      and h3: "\<exists>d \<in> set ?bs. \<not> is_int d"
  proof -
    obtain n where n: "last (size_list sz) = PyInt n" "0 < n" using h2 by auto
    show ?thesis
      by (rule run_dims_err[OF split[OF h1 n(1)] n(2) dims_of_type_error[OF h3]])
  qed
  have e: "?run = Inl ValueError"
    if h1: "size_list sz \<noteq> []" and h2: "\<exists>n. last (size_list sz) = PyInt n \<and> 0 < n"
      and h3: "\<forall>d \<in> set ?bs. is_int d" and h4: "\<exists>d \<in> set ?bs. int_of d < 0"
  proof -
    obtain n where n: "last (size_list sz) = PyInt n" "0 < n" using h2 by auto
    show ?thesis
      by (rule run_dims_err[OF split[OF h1 n(1)] n(2) dims_of_value_error[OF h3 h4]])
  qed
  have f: "?run = Inr (\<lparr>shape = map (\<lambda>d. nat (int_of d)) (size_list sz), rows = []\<rparr>, g)"
    if h1: "size_list sz \<noteq> []" and h2: "\<exists>n. last (size_list sz) = PyInt n \<and> 0 < n"
      and h3: "\<forall>d \<in> set ?bs. is_int d \<and> 0 \<le> int_of d"
      and h4: "\<exists>d \<in> set ?bs. int_of d = 0"
  proof -
    obtain n where n: "last (size_list sz) = PyInt n" "0 < n" using h2 by auto
    let ?ns = "map (\<lambda>d. nat (int_of d)) ?bs"
    have ok: "dims_of ?bs = Inr ?ns" by (rule dims_of_ok[OF h3])
    have z: "0 \<in> set ?ns" using h4 by force
    have "map (\<lambda>d. nat (int_of d)) (size_list sz) = ?ns @ [nat n]"
      using arg_cong[OF split[OF h1 n(1)], of "map (\<lambda>d. nat (int_of d))"] by simp
    then show ?thesis
      using run_zero_batch[OF split[OF h1 n(1)] n(2) ok z, of e fmin g] by simp
  qed
  have g: "\<exists>err. ?run = Inl err"
    if "size_list sz = []
      \<or> (\<forall>n. last (size_list sz) = PyInt n \<longrightarrow> n \<le> 0)
      \<or> (\<exists>d \<in> set ?bs. \<forall>k. d = PyInt k \<longrightarrow> k < 0)"
    using that a b c by blast
  show ?thesis using a b d e f g by blast
qed

theorem invalid_shape_fails_witness:
  "size_list (PySeq []) = []
   \<and> powerlaw_psd_gaussian 1 (PySeq []) 0 (\<lambda>i. real i + 1) = Inl IndexError
   \<and> last (size_list (PyFloat (5 / 2))) = PyFloat (5 / 2)
   \<and> powerlaw_psd_gaussian 1 (PyFloat (5 / 2)) 0 (\<lambda>i. real i + 1) = Inl ValueError
   \<and> last (size_list (PySeq [PyInt 3, PyInt (- 4)])) = PyInt (- 4)
   \<and> powerlaw_psd_gaussian 1 (PySeq [PyInt 3, PyInt (- 4)]) 0 (\<lambda>i. real i + 1) = Inl ValueError
   \<and> PyInt (- 3) \<in> set (butlast (size_list (PySeq [PyInt (- 3), PyInt 4])))
   \<and> powerlaw_psd_gaussian 1 (PySeq [PyInt (- 3), PyInt 4]) 0 (\<lambda>i. real i + 1) = Inl ValueError
   \<and> PyFloat (5 / 2) \<in> set (butlast (size_list (PySeq [PyInt (- 3), PyFloat (5 / 2), PyInt 4])))
   \<and> powerlaw_psd_gaussian 1 (PySeq [PyInt (- 3), PyFloat (5 / 2), PyInt 4]) 0 (\<lambda>i. real i + 1)
        = Inl TypeError
   \<and> PyInt 0 \<in> set (butlast (size_list (PySeq [PyInt 2, PyInt 0, PyInt 3])))
   \<and> powerlaw_psd_gaussian 1 (PySeq [PyInt 2, PyInt 0, PyInt 3]) 0 (\<lambda>i. real i + 1)
        = Inr (\<lparr>shape = [2, 0, 3], rows = []\<rparr>, \<lambda>i. real i + 1)"
proof -
  have w1: "powerlaw_psd_gaussian 1 (PySeq []) 0 (\<lambda>i. real i + 1) = Inl IndexError"
    using invalid_shape_fails[of "PySeq []" 1 0 "\<lambda>i. real i + 1"] by simp
  have w2: "powerlaw_psd_gaussian 1 (PyFloat (5 / 2)) 0 (\<lambda>i. real i + 1) = Inl ValueError"
    using invalid_shape_fails[of "PyFloat (5 / 2)" 1 0 "\<lambda>i. real i + 1"] by simp
  have w3: "powerlaw_psd_gaussian 1 (PySeq [PyInt 3, PyInt (- 4)]) 0 (\<lambda>i. real i + 1) = Inl ValueError"
    using invalid_shape_fails[of "PySeq [PyInt 3, PyInt (- 4)]" 1 0 "\<lambda>i. real i + 1"] by simp
  have w4: "powerlaw_psd_gaussian 1 (PySeq [PyInt (- 3), PyInt 4]) 0 (\<lambda>i. real i + 1) = Inl ValueError"
    using invalid_shape_fails[of "PySeq [PyInt (- 3), PyInt 4]" 1 0 "\<lambda>i. real i + 1"] by simp
  have w5: "powerlaw_psd_gaussian 1 (PySeq [PyInt (- 3), PyFloat (5 / 2), PyInt 4]) 0 (\<lambda>i. real i + 1)
        = Inl TypeError"
    using invalid_shape_fails[of "PySeq [PyInt (- 3), PyFloat (5 / 2), PyInt 4]" 1 0 "\<lambda>i. real i + 1"]
    by simp
  have w6: "powerlaw_psd_gaussian 1 (PySeq [PyInt 2, PyInt 0, PyInt 3]) 0 (\<lambda>i. real i + 1)
        = Inr (\<lparr>shape = [2, 0, 3], rows = []\<rparr>, \<lambda>i. real i + 1)"
    using invalid_shape_fails[of "PySeq [PyInt 2, PyInt 0, PyInt 3]" 1 0 "\<lambda>i. real i + 1"]
    by simp
  show ?thesis using w1 w2 w3 w4 w5 w6 by simp
qed

subsection \<open>The scale vector in \<open>float64\<close>\<close>

lemma fftfreq_4: "fftfreq (PyInt 4) = Inr [0, 1 / 4, - (1 / 2), - (1 / 4)]"
  by (simp add: fftfreq_def Let_def upto.simps)

lemma s_scale_init_4: "s_scale_init 4 [0, 1 / 4, - (1 / 2), - (1 / 4)] = [1 / 4, 1 / 4, 1 / 2]"
  by (simp add: s_scale_init_def)

lemma float64_huge: "float64 (2 ^ 1100) = PosInf"
proof -
  have "(2::real) ^ 1024 \<le> 2 ^ 1100" by (rule power_increasing) simp_all
  moreover have "(0::real) \<le> 2 ^ 970" by simp
  ultimately have "(2::real) ^ 1024 - 2 ^ 970 \<le> 2 ^ 1100" by linarith
  then show ?thesis by (simp only: float64_def if_True)
qed

lemma float64_tiny: "float64 (1 / 2 ^ 5000) = Fin 0"
proof -
  have le: "(2::real) ^ 1075 \<le> 2 ^ 5000" by (rule power_increasing) simp_all
  have pos: "(0::real) < 1 / 2 ^ 5000" by simp
  have a: "(1::real) / 2 ^ 5000 \<le> 1 / 2 ^ 1075"
    using le by (simp add: frac_le)
  have b: "\<not> (2::real) ^ 1024 - 2 ^ 970 \<le> 1 / 2 ^ 5000"
  proof -
    have gen: "\<not> a - b \<le> c" if "2 * b \<le> a" "1 < b" "c \<le> 1" for a b c :: real
      using that by linarith
    have "(1::real) / 2 ^ 5000 \<le> 1" by simp
    moreover have "(2::real) ^ 971 \<le> 2 ^ 1024" by (rule power_increasing) simp_all
    then have "2 * (2::real) ^ 970 \<le> 2 ^ 1024" by simp
    moreover have "(1::real) < 2 ^ 970" by (rule one_less_power) simp_all
    ultimately show ?thesis by (intro gen)
  qed
  have c: "\<not> (1::real) / 2 ^ 5000 \<le> - (2 ^ 1024 - 2 ^ 970)"
  proof -
    have "(2::real) ^ 970 \<le> 2 ^ 1024" by (rule power_increasing) simp_all
    then show ?thesis using pos by linarith
  qed
  have d: "\<bar>(1::real) / 2 ^ 5000\<bar> \<le> 1 / 2 ^ 1075" using a pos by simp
  show ?thesis using b c d by (simp only: float64_def if_True if_False)
qed

lemma quarter_powr_neg: "(1 / 4 :: real) powr (- 1100 / 2) = 2 ^ 1100"
proof -
  have "(1 / 4 :: real) powr (- 1100 / 2) = (1 / 4) powr (- 550)" by simp
  also have "\<dots> = 4 powr 550" by (simp add: powr_minus_divide powr_divide)
  also have "\<dots> = (4::real) ^ 550" by (simp only: powr_numeral zero_less_numeral)
  also have "\<dots> = ((2::real) ^ 2) ^ 550" by simp
  also have "\<dots> = 2 ^ (2 * 550)" by (rule power_mult[symmetric])
  also have "\<dots> = 2 ^ 1100" by simp
  finally show ?thesis .
qed

lemma quarter_powr_pos: "(1 / 4 :: real) powr (- (- 5000) / 2) = 1 / 2 ^ 5000"
proof -
  have "(1 / 4 :: real) powr (- (- 5000) / 2) = (1 / 4) powr 2500" by simp
  also have "\<dots> = (1 / 4 :: real) ^ 2500" by (rule powr_numeral) simp
  also have "\<dots> = 1 / (4::real) ^ 2500" by (simp only: power_one_over)
  also have "(4::real) ^ 2500 = ((2::real) ^ 2) ^ 2500" by simp
  also have "\<dots> = 2 ^ (2 * 2500)" by (rule power_mult[symmetric])
  also have "\<dots> = 2 ^ 5000" by simp
  finally show ?thesis .
qed

text \<open>
  Claim C4 says that with \<open>fmin = 0\<close>, for every \<open>samples \<ge> 1\<close> and every real
  exponent, every entry of the scale vector is finite and strictly positive. That
  does not hold of line 80 in \<open>float64\<close>. For \<open>samples = 4\<close> the first entry is
  \<open>(1/4) ** (-exponent/2.)\<close>: with \<open>exponent = 1100\<close> it is \<open>2\<^sup>1\<^sup>1\<^sup>0\<^sup>0\<close>, stored as
  \<open>inf\<close>, and with \<open>exponent = -5000\<close> it is \<open>2\<^sup>-\<^sup>5\<^sup>0\<^sup>0\<^sup>0\<close>, stored as \<open>0.0\<close>.
\<close>

theorem scale_entry_out_of_range:
  "fftfreq (PyInt 4) = Inr [0, 1 / 4, - (1 / 2), - (1 / 4)]
   \<and> s_scale_float64 1100 4 0 [0, 1 / 4, - (1 / 2), - (1 / 4)] ! 0 = PosInf
   \<and> s_scale_float64 (- 5000) 4 0 [0, 1 / 4, - (1 / 2), - (1 / 4)] ! 0 = Fin 0"
proof -
  have a: "s_scale_of 1100 4 0 [0, 1 / 4, - (1 / 2), - (1 / 4)] ! 0 = (1 / 4) powr (- 1100 / 2)"
    by (simp add: s_scale_of_def low_cutoff_def apply_exponent_def s_scale_init_4)
  have b: "s_scale_of (- 5000) 4 0 [0, 1 / 4, - (1 / 2), - (1 / 4)] ! 0 = (1 / 4) powr (- (- 5000) / 2)"
    by (simp add: s_scale_of_def low_cutoff_def apply_exponent_def s_scale_init_4)
  have l1: "0 < length (s_scale_of 1100 4 0 [0, 1 / 4, - (1 / 2), - (1 / 4)])"
    by (simp add: s_scale_of_def low_cutoff_def apply_exponent_def s_scale_init_4)
  have l2: "0 < length (s_scale_of (- 5000) 4 0 [0, 1 / 4, - (1 / 2), - (1 / 4)])"
    by (simp add: s_scale_of_def low_cutoff_def apply_exponent_def s_scale_init_4)
  have c: "s_scale_float64 1100 4 0 [0, 1 / 4, - (1 / 2), - (1 / 4)] ! 0 = PosInf"
    unfolding s_scale_float64_def nth_map[OF l1] a quarter_powr_neg by (rule float64_huge)
  have d: "s_scale_float64 (- 5000) 4 0 [0, 1 / 4, - (1 / 2), - (1 / 4)] ! 0 = Fin 0"
    unfolding s_scale_float64_def nth_map[OF l2] b quarter_powr_pos by (rule float64_tiny)
  show ?thesis using fftfreq_4 c d by simp
qed

lemma s_scale_init_upper:
  assumes "0 < n" "fftfreq (PyInt n) = Inr f" "x \<in> set (s_scale_init n f)"
  shows "x \<le> 1"
proof -
  obtain k where k: "k < length (s_scale_init n f)" "x = s_scale_init n f ! k"
    using assms(3) by (auto simp: in_set_conv_nth)
  then have kn: "int k \<le> n div 2"
    using length_s_scale_init[OF assms(1,2)] by linarith
  then have x: "x = (if k = 0 then 1 / real_of_int n else real k / real_of_int n)"
    using s_scale_init_nth[OF assms(1,2)] k by simp
  have "int k \<le> n" using kn assms(1) by linarith
  then have "real k \<le> real_of_int n" by linarith
  moreover have "1 \<le> real_of_int n" using assms(1) by linarith
  ultimately show ?thesis using x assms(1) by (auto simp: divide_simps)
qed

lemma powr_within:
  fixes y p m :: real
  assumes m: "1 \<le> m" and y: "1 / m \<le> y" "y \<le> 1" and b: "\<bar>p\<bar> * log 2 m \<le> c"
  shows "2 powr (- c) \<le> y powr p" "y powr p \<le> 2 powr c"
proof -
  have m0: "0 < 1 / m" using m by simp
  have y0: "0 < y" using m0 y(1) by linarith
  have "ln (1 / m) \<le> ln y" using y(1) y0 m0 by (simp only: ln_le_cancel_iff)
  moreover have "ln (1 / m) = - ln m" using m by (simp add: ln_div)
  ultimately have l1: "- ln m \<le> ln y" by simp
  have l2: "ln y \<le> 0" using y(2) y0 by simp
  have "\<bar>p * ln y\<bar> = \<bar>p\<bar> * \<bar>ln y\<bar>" by (rule abs_mult)
  also have "\<dots> \<le> \<bar>p\<bar> * ln m"
    using l1 l2 by (intro mult_left_mono) auto
  also have "\<dots> = \<bar>p\<bar> * log 2 m * ln 2" by (simp add: log_def)
  also have "\<dots> \<le> c * ln 2" using b by (intro mult_right_mono) auto
  finally have a: "\<bar>p * ln y\<bar> \<le> c * ln 2" .
  have yp: "y powr p = exp (p * ln y)" using y0 by (simp add: powr_def)
  have c1: "2 powr c = exp (c * ln 2)" by (simp add: powr_def)
  have c2: "2 powr (- c) = exp (- (c * ln 2))" by (simp add: powr_def)
  show "2 powr (- c) \<le> y powr p" unfolding yp c2 using a by simp
  show "y powr p \<le> 2 powr c" unfolding yp c1 using a by simp
qed

lemma float64_in_range:
  assumes "2 powr (- 1022) \<le> x" "x \<le> 2 powr 1022"
  shows "float64 x = Fin x" "0 < x"
proof -
  have lo: "(2::real) powr (- 1022) = 1 / 2 ^ 1022"
    by (simp add: powr_minus_divide)
  have hi: "(2::real) powr 1022 = 2 ^ 1022" by simp
  have p: "(0::real) < 1 / 2 ^ 1022" by simp
  show x0: "0 < x" using assms(1) p unfolding lo by linarith
  have "(2::real) ^ 1022 < 2 ^ 1075" by (rule power_strict_increasing) simp_all
  then have "(1::real) / 2 ^ 1075 < 1 / 2 ^ 1022" by (simp add: frac_less2)
  then have a: "\<not> \<bar>x\<bar> \<le> 1 / 2 ^ 1075" using assms(1) x0 unfolding lo by linarith
  have gen: "x < a - b" if "x \<le> q" "4 * q \<le> a" "2 * b \<le> a" "0 < q" for a b q :: real
    using that by linarith
  have f2: "4 * (2::real) ^ 1022 \<le> 2 ^ 1024"
  proof -
    have "(2::real) ^ (2 + 1022) \<le> 2 ^ 1024" by (rule power_increasing) simp_all
    then show ?thesis by (simp only: power_add) simp
  qed
  have f3: "2 * (2::real) ^ 970 \<le> 2 ^ 1024"
  proof -
    have "(2::real) ^ 971 \<le> 2 ^ 1024" by (rule power_increasing) simp_all
    then show ?thesis by simp
  qed
  have f1: "x \<le> 2 ^ 1022" using assms(2) unfolding hi .
  have f4: "(0::real) < 2 ^ 1022" by simp
  have "x < 2 ^ 1024 - 2 ^ 970" by (rule gen[OF f1 f2 f3 f4])
  then have b: "\<not> 2 ^ 1024 - 2 ^ 970 \<le> x" by simp
  have c: "\<not> x \<le> - (2 ^ 1024 - 2 ^ 970)"
  proof -
    have "(2::real) ^ 970 \<le> 2 ^ 1024" by (rule power_increasing) simp_all
    then show ?thesis using x0 by linarith
  qed
  show "float64 x = Fin x" using a b c by (simp only: float64_def if_False)
qed

lemma float64_eq_Fin_pos:
  assumes "0 < n" "fftfreq (PyInt n) = Inr f"
      and b: "\<bar>e\<bar> / 2 * log 2 (real_of_int n) \<le> 1022"
      and x: "x \<in> set (s_scale_of e n fmin f)"
  shows "float64 x = Fin x \<and> 0 < x"
proof -
  obtain y where y: "y \<in> set (low_cutoff fmin (s_scale_init n f))" "x = y powr (- e / 2)"
    using x by (auto simp: s_scale_of_def apply_exponent_def)
  then have yi: "y \<in> set (s_scale_init n f)" using low_cutoff_subset by blast
  have m: "1 \<le> real_of_int n" using assms(1) by linarith
  have lo: "1 / real_of_int n \<le> y" by (rule s_scale_init_lower[OF assms(1,2) yi])
  have hi: "y \<le> 1" by (rule s_scale_init_upper[OF assms(1,2) yi])
  have "\<bar>- e / 2\<bar> * log 2 (real_of_int n) \<le> 1022" using b by simp
  then have "2 powr (- 1022) \<le> y powr (- e / 2)" "y powr (- e / 2) \<le> 2 powr 1022"
    using powr_within[OF m lo hi] by blast+
  then show ?thesis using float64_in_range[of x] y(2) by blast
qed

text \<open>
  Claim C4, amended. With \<open>fmin = 0\<close>, for every \<open>samples = n \<ge> 1\<close> and every real
  exponent \<open>e\<close>, the scale vector has length \<open>n div 2 + 1\<close>, its entry \<open>k\<close> is
  \<open>(k/n)\<^bsup>-e/2\<^esup>\<close> as \<open>float64\<close> stores it for \<open>1 \<le> k \<le> n div 2\<close>, and its entry 0 is
  \<open>(1/n)\<^bsup>-e/2\<^esup>\<close> as \<open>float64\<close> stores it. When \<open>\<bar>e\<bar> / 2 * log\<^sub>2 n \<le> 1022\<close> no entry
  leaves the range: the entries are these powers, and every entry is finite and
  strictly positive.
\<close>

theorem scale_vector_fmin_zero:
  assumes "1 \<le> n"
  shows "\<exists>f. fftfreq (PyInt n) = Inr f
      \<and> length (s_scale_float64 e n 0 f) = nat (n div 2 + 1)
      \<and> s_scale_float64 e n 0 f ! 0 = float64 ((1 / real_of_int n) powr (- e / 2))
      \<and> (\<forall>k. 1 \<le> k \<and> int k \<le> n div 2 \<longrightarrow>
            s_scale_float64 e n 0 f ! k = float64 ((real k / real_of_int n) powr (- e / 2)))
      \<and> (\<bar>e\<bar> / 2 * log 2 (real_of_int n) \<le> 1022 \<longrightarrow>
            s_scale_float64 e n 0 f ! 0 = Fin ((1 / real_of_int n) powr (- e / 2))
          \<and> (\<forall>k. 1 \<le> k \<and> int k \<le> n div 2 \<longrightarrow>
                s_scale_float64 e n 0 f ! k = Fin ((real k / real_of_int n) powr (- e / 2)))
          \<and> (\<forall>x \<in> set (s_scale_float64 e n 0 f). \<exists>v. x = Fin v \<and> 0 < v))"
proof -
  have n: "0 < n" using assms by simp
  obtain f where f: "fftfreq (PyInt n) = Inr f"
      and len: "length (s_scale_of e n 0 f) = nat (n div 2 + 1)"
      and z: "s_scale_of e n 0 f ! 0 = (1 / real_of_int n) powr (- e / 2)"
      and k: "\<forall>k. 1 \<le> k \<and> int k \<le> n div 2 \<longrightarrow>
            s_scale_of e n 0 f ! k = (real k / real_of_int n) powr (- e / 2)"
    using s_scale_of_fmin_zero[OF assms, of e] by blast
  let ?sc = "s_scale_of e n 0 f"
  have nth: "s_scale_float64 e n 0 f ! j = float64 (?sc ! j)" if "j < length ?sc" for j
    using that by (simp add: s_scale_float64_def)
  have l0: "0 < length ?sc" using len n by simp
  have lk: "j < length ?sc" if "int j \<le> n div 2" for j using that len by linarith
  have a1: "length (s_scale_float64 e n 0 f) = nat (n div 2 + 1)"
    using len by (simp add: s_scale_float64_def)
  have a2: "s_scale_float64 e n 0 f ! 0 = float64 ((1 / real_of_int n) powr (- e / 2))"
    using nth[OF l0] z by simp
  have a3: "\<forall>k. 1 \<le> k \<and> int k \<le> n div 2 \<longrightarrow>
            s_scale_float64 e n 0 f ! k = float64 ((real k / real_of_int n) powr (- e / 2))"
    using nth lk k by auto
  have fin: "float64 x = Fin x \<and> 0 < x"
    if "\<bar>e\<bar> / 2 * log 2 (real_of_int n) \<le> 1022" "x \<in> set ?sc" for x
    by (rule float64_eq_Fin_pos[OF n f that])
  have b1: "s_scale_float64 e n 0 f ! 0 = Fin ((1 / real_of_int n) powr (- e / 2))"
    if b: "\<bar>e\<bar> / 2 * log 2 (real_of_int n) \<le> 1022"
  proof -
    have "?sc ! 0 \<in> set ?sc" using l0 by simp
    then show ?thesis using fin[OF b] nth[OF l0] z by simp
  qed
  have b2: "\<forall>k. 1 \<le> k \<and> int k \<le> n div 2 \<longrightarrow>
                s_scale_float64 e n 0 f ! k = Fin ((real k / real_of_int n) powr (- e / 2))"
    if b: "\<bar>e\<bar> / 2 * log 2 (real_of_int n) \<le> 1022"
  proof (intro allI impI)
    fix j assume j: "1 \<le> j \<and> int j \<le> n div 2"
    then have "?sc ! j \<in> set ?sc" using lk by simp
    then show "s_scale_float64 e n 0 f ! j = Fin ((real j / real_of_int n) powr (- e / 2))"
      using fin[OF b] nth lk j k by simp
  qed
  have b3: "\<forall>x \<in> set (s_scale_float64 e n 0 f). \<exists>v. x = Fin v \<and> 0 < v"
    if b: "\<bar>e\<bar> / 2 * log 2 (real_of_int n) \<le> 1022"
    using fin[OF b] by (auto simp: s_scale_float64_def)
  show ?thesis using f a1 a2 a3 b1 b2 b3 by blast
qed

theorem scale_vector_fmin_zero_witness:
  "(1::int) \<le> 4 \<and> \<bar>2::real\<bar> / 2 * log 2 (real_of_int 4) \<le> 1022
   \<and> (\<exists>f. fftfreq (PyInt 4) = Inr f
      \<and> length (s_scale_float64 2 4 0 f) = 3
      \<and> s_scale_float64 2 4 0 f ! 0 = Fin 4
      \<and> s_scale_float64 2 4 0 f ! 2 = Fin 2)"
proof -
  have h: "(1::int) \<le> 4" by simp
  have "log 2 (real_of_int 4) = log 2 (2 ^ 2)" by simp
  also have "\<dots> = 2" by (subst log_pow_cancel) simp_all
  finally have l: "log 2 (real_of_int 4) = 2" .
  have b: "\<bar>2::real\<bar> / 2 * log 2 (real_of_int 4) \<le> 1022" unfolding l by simp
  obtain f where f: "fftfreq (PyInt 4) = Inr f"
      "length (s_scale_float64 2 4 0 f) = nat (4 div 2 + 1)"
      "s_scale_float64 2 4 0 f ! 0 = Fin ((1 / real_of_int 4) powr (- 2 / 2))"
      "\<forall>k. 1 \<le> k \<and> int k \<le> 4 div 2 \<longrightarrow>
            s_scale_float64 2 4 0 f ! k = Fin ((real k / real_of_int 4) powr (- 2 / 2))"
    using scale_vector_fmin_zero[OF h, of 2] b by blast
  have a: "length (s_scale_float64 2 4 0 f) = 3" using f(2) by simp
  have c: "s_scale_float64 2 4 0 f ! 0 = Fin 4" using f(3) by (simp add: powr_minus divide_simps)
  have "s_scale_float64 2 4 0 f ! 2 = Fin ((real 2 / real_of_int 4) powr (- 2 / 2))"
    using f(4) by simp
  then have d: "s_scale_float64 2 4 0 f ! 2 = Fin 2" by (simp add: powr_minus divide_simps)
  show ?thesis using h b f(1) a c d by blast
qed

subsection \<open>Determinism\<close>

lemma idx_bound:
  fixes r c B M :: nat
  assumes "r < B" "c < M"
  shows "r * M + c < B * M"
proof -
  have "r * M + c < r * M + M" using assms(2) by simp
  also have "\<dots> = Suc r * M" by simp
  also have "\<dots> \<le> B * M" using assms(1) by (intro mult_le_mono1) simp
  finally show ?thesis .
qed

lemma run_ok_cong:
  assumes sz: "size_list sz = bs @ [PyInt n]" and n: "0 < n"
      and f: "fftfreq (PyInt n) = Inr f" and bs: "dims_of bs = Inr ns"
      and agree: "\<forall>i < 2 * (prod_list ns * nat (n div 2 + 1)). g' i = g i"
  shows "map_sum id fst (powerlaw_psd_gaussian e sz fmin g')
           = map_sum id fst (powerlaw_psd_gaussian e sz fmin g)"
proof -
  let ?M = "nat (n div 2 + 1)"
  let ?B = "prod_list ns"
  have a: "g' (r * ?M + c) = g (r * ?M + c)" if "r < ?B" "c < ?M" for r c
    using idx_bound[OF that] agree by simp
  have b: "g' (r * ?M + c + ?B * ?M) = g (r * ?M + c + ?B * ?M)" if "r < ?B" "c < ?M" for r c
    using idx_bound[OF that] agree by simp
  have inner: "map (\<lambda>c. Complex (g' (r * ?M + c))
                     (if c = 0 then 0 else if even n \<and> c = ?M - 1 then 0
                      else g' (r * ?M + c + ?B * ?M))) [0..<?M]
             = map (\<lambda>c. Complex (g (r * ?M + c))
                     (if c = 0 then 0 else if even n \<and> c = ?M - 1 then 0
                      else g (r * ?M + c + ?B * ?M))) [0..<?M]" if "r < ?B" for r
    by (rule map_cong) (use a[OF that] b[OF that] in auto)
  show ?thesis
    unfolding run_ok[OF sz n f bs]
    by (simp add: inner)
qed

lemma run_shape:
  assumes sz: "size_list sz = bs @ [PyInt n]" and n: "0 < n"
      and f: "fftfreq (PyInt n) = Inr f" and bs: "dims_of bs = Inr ns"
      and run: "powerlaw_psd_gaussian e sz fmin g = Inr (out, g1)"
  shows "shape out = ns @ [nat n]"
  using run unfolding run_ok[OF sz n f bs] by auto

text \<open>
  Claim C9. The result is a function of the arguments and of the stream of draws, and
  of no other state. The theorem says more: a failure does not depend on the stream at
  all, and a successful call depends on the stream only through the draws it consumes,
  the first \<open>2 * B * (samples // 2 + 1)\<close> for \<open>B\<close> batch elements. So two calls with
  the same arguments on streams that agree on those draws return the same array.
  Equality is equality of real numbers here; the model has no rounding.
\<close>

theorem same_draws_same_output:
  "(\<forall>err. powerlaw_psd_gaussian e sz fmin g = Inl err \<longrightarrow>
           powerlaw_psd_gaussian e sz fmin g' = Inl err)
   \<and> (\<forall>out g1. powerlaw_psd_gaussian e sz fmin g = Inr (out, g1)
         \<and> (\<forall>i < 2 * (prod_list (butlast (shape out)) * (last (shape out) div 2 + 1)).
               g' i = g i)
        \<longrightarrow> (\<exists>g1'. powerlaw_psd_gaussian e sz fmin g' = Inr (out, g1')))"
proof (cases "size_list sz = []")
  case True
  then show ?thesis by (simp add: run_empty)
next
  case ne: False
  show ?thesis
  proof (cases "\<forall>n. last (size_list sz) = PyInt n \<longrightarrow> n \<le> 0")
    case True
    then show ?thesis by (simp add: run_samples_err[OF ne True])
  next
    case False
    then obtain n where n: "last (size_list sz) = PyInt n" "0 < n" by auto
    let ?bs = "butlast (size_list sz)"
    have sz: "size_list sz = ?bs @ [PyInt n]"
      using ne n(1) by (metis append_butlast_last_id)
    obtain f where f: "fftfreq (PyInt n) = Inr f" using fftfreq_pos[OF n(2)] by blast
    show ?thesis
    proof (cases "dims_of ?bs")
      case (Inl err)
      then show ?thesis by (simp add: run_dims_err[OF sz n(2) Inl])
    next
      case (Inr ns)
      have e: "\<forall>err. powerlaw_psd_gaussian e sz fmin g \<noteq> Inl err"
        unfolding run_ok[OF sz n(2) f Inr] by simp
      have "\<exists>g1'. powerlaw_psd_gaussian e sz fmin g' = Inr (out, g1')"
        if run: "powerlaw_psd_gaussian e sz fmin g = Inr (out, g1)"
          and agree: "\<forall>i < 2 * (prod_list (butlast (shape out)) * (last (shape out) div 2 + 1)).
               g' i = g i" for out g1
      proof -
        have sh: "shape out = ns @ [nat n]" by (rule run_shape[OF sz n(2) f Inr run])
        have "nat n div 2 + 1 = nat (n div 2 + 1)" using n(2) by linarith
        then have "\<forall>i < 2 * (prod_list ns * nat (n div 2 + 1)). g' i = g i"
          using agree sh by simp
        then have "map_sum id fst (powerlaw_psd_gaussian e sz fmin g')
           = map_sum id fst (powerlaw_psd_gaussian e sz fmin g)"
          by (rule run_ok_cong[OF sz n(2) f Inr])
        then show ?thesis using run
          by (cases "powerlaw_psd_gaussian e sz fmin g'") auto
      qed
      then show ?thesis using e by blast
    qed
  qed
qed

theorem same_draws_same_output_witness:
  "powerlaw_psd_gaussian 0 (PyInt 2) 0 (\<lambda>i. real i + 1)
     = Inr (\<lparr>shape = [2], rows = [[Fin 3, Fin (- 1)]]\<rparr>, \<lambda>i. real i + 5)
   \<and> (\<exists>g1'. powerlaw_psd_gaussian 0 (PyInt 2) 0 (\<lambda>i. if i < 4 then real i + 1 else 0)
               = Inr (\<lparr>shape = [2], rows = [[Fin 3, Fin (- 1)]]\<rparr>, g1'))
   \<and> powerlaw_psd_gaussian 0 (PyInt 0) 0 (\<lambda>i. real i + 1) = Inl ZeroDivisionError
   \<and> powerlaw_psd_gaussian 0 (PyInt 0) 0 (\<lambda>i. 0) = Inl ZeroDivisionError"
proof -
  have z: "powerlaw_psd_gaussian 0 (PyInt 0) 0 (\<lambda>i. real i + 1) = Inl ZeroDivisionError"
    by (simp add: powerlaw_psd_gaussian_def last_item_def fftfreq_def)
  have a: "\<forall>i < 2 * (prod_list (butlast (shape \<lparr>shape = [2], rows = [[Fin 3, Fin (- 1)]]\<rparr>))
                     * (last (shape \<lparr>shape = [2], rows = [[Fin 3, Fin (- 1)]]\<rparr>) div 2 + 1)).
               (\<lambda>i. if i < 4 then real i + 1 else 0) i = (\<lambda>i. real i + 1) i"
    by simp
  have w1: "\<exists>g1'. powerlaw_psd_gaussian 0 (PyInt 2) 0 (\<lambda>i. if i < 4 then real i + 1 else 0)
               = Inr (\<lparr>shape = [2], rows = [[Fin 3, Fin (- 1)]]\<rparr>, g1')"
    using same_draws_same_output[of 0 "PyInt 2" 0 "\<lambda>i. real i + 1"
            "\<lambda>i. if i < 4 then real i + 1 else 0"] run_2_example a by blast
  have w2: "powerlaw_psd_gaussian 0 (PyInt 0) 0 (\<lambda>i. 0) = Inl ZeroDivisionError"
    using same_draws_same_output[of 0 "PyInt 0" 0 "\<lambda>i. real i + 1" "\<lambda>i. 0"] z by blast
  show ?thesis using run_2_example w1 w2 z by blast
qed


subsection \<open>The variance of an output sample\<close>









subsection \<open>The expected sample variance\<close>

























end
